theory Spec2Isabelle
  imports Complex_Main "HOL-Library.AList" "HOL-Library.Multiset"
begin

section \<open>Numbers and strings of the source language\<close>

text \<open>
  The program is TypeScript. A finite number is modelled as an exact \<open>real\<close>: IEEE rounding,
  overflow to infinity and underflow are outside the model. Where the source can
  produce \<open>NaN\<close> or read a missing (\<open>undefined\<close>) numeric property, the value has type
  \<open>number\<close>, with \<open>None\<close> for \<open>NaN\<close>/\<open>undefined\<close>: arithmetic on it yields \<open>None\<close> and every
  comparison with it is false, as in the source language.
\<close>

type_synonym number = "real option"

definition lift2 :: "(real \<Rightarrow> real \<Rightarrow> real) \<Rightarrow> number \<Rightarrow> number \<Rightarrow> number" where
  "lift2 f a b = (case a of None \<Rightarrow> None | Some x \<Rightarrow> (case b of None \<Rightarrow> None | Some y \<Rightarrow> Some (f x y)))"

definition nplus :: "number \<Rightarrow> number \<Rightarrow> number" where
  "nplus = lift2 (+)"

definition nminus :: "number \<Rightarrow> number \<Rightarrow> number" where
  "nminus = lift2 (-)"

definition ntimes :: "number \<Rightarrow> number \<Rightarrow> number" where
  "ntimes = lift2 (*)"

definition nle :: "number \<Rightarrow> number \<Rightarrow> bool" where
  "nle a b = (case a of None \<Rightarrow> False | Some x \<Rightarrow> (case b of None \<Rightarrow> False | Some y \<Rightarrow> x \<le> y))"

definition nge :: "number \<Rightarrow> number \<Rightarrow> bool" where
  "nge a b = nle b a"

text \<open>
  \<open>String.prototype.toLowerCase\<close> on ASCII text: a \<open>string\<close> here is a list of 8-bit
  characters, and the model covers venue ids and messages made of ASCII characters. The
  source function works on Unicode, where a few characters outside ASCII have an ASCII
  lower case (U+212A, the Kelvin sign, gives k); such strings are outside the model.
\<close>

definition toLowerChar :: "char \<Rightarrow> char" where
  "toLowerChar c =
     (case map_of (zip ''ABCDEFGHIJKLMNOPQRSTUVWXYZ'' ''abcdefghijklmnopqrstuvwxyz'') c of
        Some l \<Rightarrow> l
      | None \<Rightarrow> c)"

definition toLowerCase :: "string \<Rightarrow> string" where
  "toLowerCase s = map toLowerChar s"

text \<open>\<open>String.prototype.includes\<close>: does \<open>needle\<close> occur in \<open>s\<close> as a contiguous run?\<close>

fun startsWith :: "string \<Rightarrow> string \<Rightarrow> bool" where
  "startsWith s [] = True"
| "startsWith [] (c # cs) = False"
| "startsWith (x # xs) (c # cs) = (x = c \<and> startsWith xs cs)"

fun str_includes :: "string \<Rightarrow> string \<Rightarrow> bool" where
  "str_includes [] needle = (needle = [])"
| "str_includes (x # xs) needle = (startsWith (x # xs) needle \<or> str_includes xs needle)"

text \<open>Decimal rendering of a non-negative integer, as a template literal prints it.\<close>

definition digitChar :: "nat \<Rightarrow> char" where
  "digitChar d = ''0123456789'' ! d"

fun showNat :: "nat \<Rightarrow> string" where
  "showNat n = (if n < 10 then [digitChar n] else showNat (n div 10) @ [digitChar (n mod 10)])"

declare showNat.simps [simp del]


section \<open>Fee model (config/exchange-fees.ts)\<close>

record ExchangeFees =
  maker :: real
  taker :: real
  withdrawal :: real

text \<open>The own properties of the object literal \<open>EXCHANGE_FEES\<close>, in source order.\<close>

definition EXCHANGE_FEES :: "(string \<times> ExchangeFees) list" where
  "EXCHANGE_FEES =
    [(''binance'',     \<lparr>maker = 0.001,    taker = 0.001,   withdrawal = 15\<rparr>),
     (''coinbase'',    \<lparr>maker = 0.004,    taker = 0.006,   withdrawal = 25\<rparr>),
     (''kraken'',      \<lparr>maker = 0.0016,   taker = 0.0026,  withdrawal = 10\<rparr>),
     (''gemini'',      \<lparr>maker = 0.001,    taker = 0.0035,  withdrawal = 20\<rparr>),
     (''bybit'',       \<lparr>maker = 0.001,    taker = 0.001,   withdrawal = 12\<rparr>),
     (''okx'',         \<lparr>maker = 0.0008,   taker = 0.001,   withdrawal = 10\<rparr>),
     (''gateio'',      \<lparr>maker = 0.002,    taker = 0.002,   withdrawal = 15\<rparr>),
     (''kucoin'',      \<lparr>maker = 0.001,    taker = 0.001,   withdrawal = 10\<rparr>),
     (''bitget'',      \<lparr>maker = 0.001,    taker = 0.001,   withdrawal = 12\<rparr>),
     (''mexc'',        \<lparr>maker = 0.0002,   taker = 0.0002,  withdrawal = 8\<rparr>),
     (''huobi'',       \<lparr>maker = 0.002,    taker = 0.002,   withdrawal = 15\<rparr>),
     (''bitfinex'',    \<lparr>maker = 0.001,    taker = 0.002,   withdrawal = 20\<rparr>),
     (''bitstamp'',    \<lparr>maker = 0.004,    taker = 0.005,   withdrawal = 15\<rparr>),
     (''binanceusdm'', \<lparr>maker = 0.0002,   taker = 0.0004,  withdrawal = 10\<rparr>),
     (''deribit'',     \<lparr>maker = 0.0002,   taker = 0.0005,  withdrawal = 5\<rparr>),
     (''phemex'',      \<lparr>maker = -0.00025, taker = 0.00075, withdrawal = 8\<rparr>),
     (''bitmex'',      \<lparr>maker = -0.00025, taker = 0.00075, withdrawal = 10\<rparr>)]"

definition DEFAULT_FEES :: ExchangeFees where
  "DEFAULT_FEES = \<lparr>maker = 0.002, taker = 0.002, withdrawal = 20\<rparr>"

text \<open>
  \<open>EXCHANGE_FEES\<close> is a plain object literal, so the bracket read \<open>EXCHANGE_FEES[key]\<close> also
  finds the properties it inherits from \<open>Object.prototype\<close>. Each of those is a function or
  an object: truthy, and without \<open>maker\<close>, \<open>taker\<close> or \<open>withdrawal\<close> properties.
\<close>

definition Object_prototype :: "string list" where
  "Object_prototype =
    [''constructor'', ''__defineGetter__'', ''__defineSetter__'', ''hasOwnProperty'',
     ''__lookupGetter__'', ''__lookupSetter__'', ''isPrototypeOf'', ''propertyIsEnumerable'',
     ''toString'', ''valueOf'', ''__proto__'', ''toLocaleString'']"

datatype FeesObject = Profile ExchangeFees | Inherited string

definition EXCHANGE_FEES_get :: "string \<Rightarrow> FeesObject option" where
  "EXCHANGE_FEES_get key =
     (case map_of EXCHANGE_FEES key of
        Some f \<Rightarrow> Some (Profile f)
      | None \<Rightarrow> (if key \<in> set Object_prototype then Some (Inherited key) else None))"

fun makerOf :: "FeesObject \<Rightarrow> number" where
  "makerOf (Profile f) = Some (maker f)"
| "makerOf (Inherited k) = None"

fun takerOf :: "FeesObject \<Rightarrow> number" where
  "takerOf (Profile f) = Some (taker f)"
| "takerOf (Inherited k) = None"

fun withdrawalOf :: "FeesObject \<Rightarrow> number" where
  "withdrawalOf (Profile f) = Some (withdrawal f)"
| "withdrawalOf (Inherited k) = None"

definition getExchangeFees :: "string \<Rightarrow> FeesObject" where
  "getExchangeFees exchangeId =
     (case EXCHANGE_FEES_get (toLowerCase exchangeId) of
        Some obj \<Rightarrow> obj
      | None \<Rightarrow> Profile DEFAULT_FEES)"

definition calculateTradingFee :: "string \<Rightarrow> real \<Rightarrow> bool \<Rightarrow> number" where
  "calculateTradingFee exchangeId price isMaker =
     (let fees = getExchangeFees exchangeId;
          feeRate = (if isMaker then makerOf fees else takerOf fees)
      in ntimes (Some price) feeRate)"

definition getWithdrawalFee :: "string \<Rightarrow> number" where
  "getWithdrawalFee exchangeId = withdrawalOf (getExchangeFees exchangeId)"

record ArbitrageFees =
  buyFee :: number
  sellFee :: number
  withdrawalFee :: number
  totalFees :: number

definition calculateArbitrageFees ::
  "string \<Rightarrow> string \<Rightarrow> real \<Rightarrow> real \<Rightarrow> bool \<Rightarrow> ArbitrageFees" where
  "calculateArbitrageFees buyExchange sellExchange buyPrice sellPrice includeWithdrawal =
     (let buyFee = calculateTradingFee buyExchange buyPrice False;
          sellFee = calculateTradingFee sellExchange sellPrice False;
          withdrawalFee =
            (if includeWithdrawal \<and> buyExchange \<noteq> sellExchange
             then getWithdrawalFee buyExchange
             else Some 0)
      in \<lparr>buyFee = buyFee, sellFee = sellFee, withdrawalFee = withdrawalFee,
          totalFees = nplus (nplus buyFee sellFee) withdrawalFee\<rparr>)"

section \<open>Adaptive rate limiter (rate-limiting/adaptive-limiter.ts)\<close>

record RetryState =
  retryCount :: nat
  lastError :: nat
  lastSuccess :: "nat option"
  consecutiveErrors :: nat

text \<open>\<open>retryStates: Map<string, RetryState>\<close>.\<close>

type_synonym RetryStates = "string \<Rightarrow> RetryState option"

text \<open>A thrown value: an object with an optional string \<open>code\<close> and an optional \<open>message\<close>.\<close>

record JSError =
  code :: "string option"
  message :: "string option"

definition maxRetries :: nat where
  "maxRetries = 5"

definition baseDelay :: nat where
  "baseDelay = 1000"

definition maxDelay :: nat where
  "maxDelay = 60000"

text \<open>
  The wrapped \<open>operation\<close> is a thunk with effects, so the model reads it from a script:
  \<open>operation n\<close> describes the invocation number \<open>n\<close> (from 0) of the thunk, which always
  settles: how it settled (\<open>Inl\<close> the thrown error, \<open>Inr\<close> the value), the clock when the
  activation that makes it was entered and when it settled (the values of \<open>new Date()\<close>),
  and the draw of \<open>Math.random()\<close>, in [0, 1), used by the backoff delay before it, if any.
\<close>

record 'a Attempt =
  outcome :: "JSError + 'a"
  entered :: nat
  settled :: nat
  random :: real

text \<open>What a call did, in order: the sleeps (in ms) and the invocations of the thunk.\<close>

datatype Event = Sleep nat | Invoke nat

definition calculateDelay :: "nat \<Rightarrow> real \<Rightarrow> nat" where
  "calculateDelay rc rnd =
     (let exponentialDelay = 2 ^ (rc - 1) * real baseDelay;
          jitter = rnd * 1000;
          delay = min (exponentialDelay + jitter) (real maxDelay)
      in nat \<lfloor>delay\<rfloor>)"

definition messageIncludes :: "JSError \<Rightarrow> string \<Rightarrow> bool" where
  "messageIncludes error needle =
     (case message error of None \<Rightarrow> False | Some m \<Rightarrow> str_includes m needle)"

definition isNonRetryableError :: "JSError \<Rightarrow> bool" where
  "isNonRetryableError error =
     (if code error = Some ''INVALID_CREDENTIALS'' \<or>
         code error = Some ''PERMISSION_DENIED'' \<or>
         messageIncludes error ''API key'' \<or>
         messageIncludes error ''authentication'' then True
      else if code error = Some ''INVALID_SYMBOL'' \<or>
         code error = Some ''MARKET_NOT_AVAILABLE'' \<or>
         messageIncludes error ''symbol'' \<or>
         messageIncludes error ''market'' then True
      else if code error = Some ''METHOD_NOT_SUPPORTED'' \<or>
         messageIncludes error ''not supported'' \<or>
         messageIncludes error ''not implemented'' then True
      else False)"

definition getOrCreateState :: "nat \<Rightarrow> string \<Rightarrow> RetryStates \<Rightarrow> RetryState \<times> RetryStates" where
  "getOrCreateState now exchangeId states =
     (case states exchangeId of
        Some state \<Rightarrow> (state, states)
      | None \<Rightarrow>
          (let state = \<lparr>retryCount = 0, lastError = now, lastSuccess = None,
                        consecutiveErrors = 0\<rparr>
           in (state, states(exchangeId \<mapsto> state))))"

definition resetState :: "nat \<Rightarrow> string \<Rightarrow> RetryStates \<Rightarrow> RetryStates" where
  "resetState now exchangeId states =
     (case states exchangeId of
        Some state \<Rightarrow>
          states(exchangeId \<mapsto>
            state\<lparr>retryCount := 0, consecutiveErrors := 0, lastSuccess := Some now\<rparr>)
      | None \<Rightarrow> states)"

text \<open>The retry count an activation for the venue finds on entry (0 for a venue not yet seen).\<close>

definition entryRetryCount :: "RetryStates \<Rightarrow> string \<Rightarrow> nat" where
  "entryRetryCount states exchangeId =
     (case states exchangeId of Some state \<Rightarrow> retryCount state | None \<Rightarrow> 0)"

text \<open>The sleep an activation performs before it invokes the thunk.\<close>

definition entryDelay :: "RetryStates \<Rightarrow> string \<Rightarrow> real \<Rightarrow> Event list" where
  "entryDelay states exchangeId rnd =
     (let rc = entryRetryCount states exchangeId
      in if rc > 0 then [Sleep (calculateDelay rc rnd)] else [])"

definition messageText :: "JSError \<Rightarrow> string" where
  "messageText error = (case message error of Some m \<Rightarrow> m | None \<Rightarrow> ''undefined'')"

definition contextText :: "string option \<Rightarrow> string" where
  "contextText context =
     (case context of
        None \<Rightarrow> []
      | Some c \<Rightarrow> (if c = [] then [] else '' ('' @ c @ '')''))"

definition maxRetriesError :: "string \<Rightarrow> string option \<Rightarrow> JSError \<Rightarrow> JSError" where
  "maxRetriesError exchangeId context error =
     \<lparr>code = None,
      message = Some (''Max retries ('' @ showNat maxRetries @ '') exceeded for '' @ exchangeId @
        contextText context @ ''. '' @ ''Last error: '' @ messageText error)\<rparr>"

function executeWithBackoff ::
  "string \<Rightarrow> (nat \<Rightarrow> 'a Attempt) \<Rightarrow> string option \<Rightarrow> nat \<Rightarrow> RetryStates
     \<Rightarrow> (JSError + 'a) \<times> Event list \<times> RetryStates" where
  "executeWithBackoff exchangeId operation context n states =
     (let a = operation n;
          rc = entryRetryCount states exchangeId;
          state = fst (getOrCreateState (entered a) exchangeId states);
          states1 = snd (getOrCreateState (entered a) exchangeId states);
          before = entryDelay states exchangeId (random a) @ [Invoke n]
      in case outcome a of
           Inr result \<Rightarrow> (Inr result, before, resetState (settled a) exchangeId states1)
         | Inl error \<Rightarrow>
             (let states2 = states1(exchangeId \<mapsto>
                    state\<lparr>retryCount := retryCount state + 1, lastError := settled a,
                          consecutiveErrors := consecutiveErrors state + 1\<rparr>)
              in if rc + 1 > maxRetries
                 then (Inl (maxRetriesError exchangeId context error), before,
                       resetState (settled a) exchangeId states2)
                 else if isNonRetryableError error
                 then (Inl error, before, resetState (settled a) exchangeId states2)
                 else (case executeWithBackoff exchangeId operation context (n + 1) states2 of
                         (r, events, states3) \<Rightarrow> (r, before @ events, states3))))"
  by pat_completeness auto
termination
proof (relation "measure (\<lambda>(exchangeId, operation, context, n, states).
                   Suc maxRetries - entryRetryCount states exchangeId)", goal_cases)
  case 1
  show ?case by simp
next
  case (2 ex oper ctx n states a rc state states1 evs err states2)
  then show ?case
    by (auto simp: entryRetryCount_def getOrCreateState_def split: option.splits)
qed

declare executeWithBackoff.simps [simp del]

record 'a Operation =
  exchangeId :: string
  operation :: "nat \<Rightarrow> 'a Attempt"
  opContext :: "string option"

record 'a Settled =
  success :: bool
  result :: "'a option"
  error :: "JSError option"

text \<open>\<open>grouped\<close>: a \<open>Map\<close> from venue to its operations, in order of first appearance.\<close>

fun groupPush :: "'a Operation \<Rightarrow> (string \<times> 'a Operation list) list
    \<Rightarrow> (string \<times> 'a Operation list) list" where
  "groupPush op [] = [(exchangeId op, [op])]"
| "groupPush op ((k, ops) # rest) =
     (if k = exchangeId op then (k, ops @ [op]) # rest else (k, ops) # groupPush op rest)"

definition grouped :: "'a Operation list \<Rightarrow> (string \<times> 'a Operation list) list" where
  "grouped operations = foldl (\<lambda>g op. groupPush op g) [] operations"

text \<open>The inner loop of \<open>executeBatch\<close>: the operations of one venue, one after the other.\<close>

fun executeGroup :: "'a Operation list \<Rightarrow> 'a Settled list \<Rightarrow> Event list \<Rightarrow> RetryStates
    \<Rightarrow> 'a Settled list \<times> Event list \<times> RetryStates" where
  "executeGroup [] results events states = (results, events, states)"
| "executeGroup (op # ops) results events states =
     (case executeWithBackoff (exchangeId op) (operation op) (opContext op) 0 states of
        (Inr r, evs, states') \<Rightarrow>
          executeGroup ops (results @ [\<lparr>success = True, result = Some r, error = None\<rparr>])
            (events @ evs) states'
      | (Inl e, evs, states') \<Rightarrow>
          executeGroup ops (results @ [\<lparr>success = False, result = None, error = Some e\<rparr>])
            (events @ evs) states')"

text \<open>The outer loop of \<open>executeBatch\<close>, over the venue groups.\<close>

fun executeGroups :: "(string \<times> 'a Operation list) list \<Rightarrow> 'a Settled list \<Rightarrow> Event list
    \<Rightarrow> RetryStates \<Rightarrow> 'a Settled list \<times> Event list \<times> RetryStates" where
  "executeGroups [] results events states = (results, events, states)"
| "executeGroups ((k, ops) # rest) results events states =
     (let events1 = (if length results > 0 then events @ [Sleep 100] else events)
      in case executeGroup ops results events1 states of
           (results', events', states') \<Rightarrow> executeGroups rest results' events' states')"

definition executeBatch :: "'a Operation list \<Rightarrow> RetryStates
    \<Rightarrow> 'a Settled list \<times> Event list \<times> RetryStates" where
  "executeBatch operations states = executeGroups (grouped operations) [] [] states"

section \<open>Arbitrage scanner (class AdvancedArbitrageScanner)\<close>

text \<open>
  A quote as \<open>fetchPricesFromExchanges\<close> returns it. \<open>bid\<close>, \<open>ask\<close> and \<open>volume\<close> (here
  \<open>vol\<close>) may be missing: the gateway leaves out what a venue does not report, and a
  cached quote stored by another handler has no \<open>volume\<close> property. \<open>fromCache\<close> is
  missing, hence falsy, on a live quote. (The scanner reads no other property of a quote.)
\<close>

record Ticker =
  exchange :: string
  bid :: number
  ask :: number
  vol :: number
  fromCache :: bool

record Volume =
  available :: real
  optimal :: real

record ArbitrageOpportunity =
  oppId :: string
  symbol :: string
  buyExchange :: string
  sellExchange :: string
  buyPrice :: real
  sellPrice :: real
  spread :: real
  spreadPercent :: real
  potentialProfit :: real
  volume :: Volume
  fees :: ArbitrageFees
  netProfit :: number
  netProfitPercent :: number
  riskScore :: real
  executionTime :: nat
  confidence :: real
  executionPath :: "string list"
  warnings :: "string list"

record ScannerConfig =
  minProfitPercent :: real
  maxRiskScore :: real
  minVolume :: real
  includeWithdrawalFees :: bool
  includeTradingFees :: bool
  scanInterval :: nat
  exchanges :: "string list"
  symbols :: "string list"

text \<open>\<open>Partial<ScannerConfig>\<close>: \<open>None\<close> is a key the caller left out.\<close>

record PartialScannerConfig =
  minProfitPercent_opt :: "real option"
  maxRiskScore_opt :: "real option"
  minVolume_opt :: "real option"
  includeWithdrawalFees_opt :: "bool option"
  includeTradingFees_opt :: "bool option"
  scanInterval_opt :: "nat option"
  exchanges_opt :: "string list option"
  symbols_opt :: "string list option"

record Scanner =
  opportunities :: "(string \<times> ArbitrageOpportunity) list"
  scannerRunning :: bool
  lastScanTime :: "nat option"

definition NEUTRAL_RISK_SCORE :: real where
  "NEUTRAL_RISK_SCORE = 5"

definition BASE_CONFIDENCE :: real where
  "BASE_CONFIDENCE = 50"

definition FRACTIONAL_KELLY :: real where
  "FRACTIONAL_KELLY = 0.25"

definition defaultConfig :: ScannerConfig where
  "defaultConfig =
     \<lparr>minProfitPercent = 0.1, maxRiskScore = 7, minVolume = 100,
      includeWithdrawalFees = True, includeTradingFees = True, scanInterval = 5000,
      exchanges = [''binance'', ''coinbase'', ''kraken'', ''okx'', ''gateio'', ''kucoin''],
      symbols = [''BTC/USDT'', ''ETH/USDT'', ''SOL/USDT'']\<rparr>"

text \<open>\<open>{ ...this.defaultConfig, ...config }\<close>\<close>

definition mergeConfig :: "ScannerConfig \<Rightarrow> PartialScannerConfig \<Rightarrow> ScannerConfig" where
  "mergeConfig d c =
     \<lparr>minProfitPercent = (case minProfitPercent_opt c of Some v \<Rightarrow> v | None \<Rightarrow> minProfitPercent d),
      maxRiskScore = (case maxRiskScore_opt c of Some v \<Rightarrow> v | None \<Rightarrow> maxRiskScore d),
      minVolume = (case minVolume_opt c of Some v \<Rightarrow> v | None \<Rightarrow> minVolume d),
      includeWithdrawalFees =
        (case includeWithdrawalFees_opt c of Some v \<Rightarrow> v | None \<Rightarrow> includeWithdrawalFees d),
      includeTradingFees =
        (case includeTradingFees_opt c of Some v \<Rightarrow> v | None \<Rightarrow> includeTradingFees d),
      scanInterval = (case scanInterval_opt c of Some v \<Rightarrow> v | None \<Rightarrow> scanInterval d),
      exchanges = (case exchanges_opt c of Some v \<Rightarrow> v | None \<Rightarrow> exchanges d),
      symbols = (case symbols_opt c of Some v \<Rightarrow> v | None \<Rightarrow> symbols d)\<rparr>"

definition calculateFees :: "Ticker \<Rightarrow> Ticker \<Rightarrow> real \<Rightarrow> real \<Rightarrow> ScannerConfig \<Rightarrow> ArbitrageFees" where
  "calculateFees buy sell buyPx sellPx config =
     (let fees = calculateArbitrageFees (exchange buy) (exchange sell) buyPx sellPx
                   (includeWithdrawalFees config)
      in \<lparr>buyFee = (if includeTradingFees config then buyFee fees else Some 0),
          sellFee = (if includeTradingFees config then sellFee fees else Some 0),
          withdrawalFee = (if includeWithdrawalFees config then withdrawalFee fees else Some 0),
          totalFees =
            nplus (if includeTradingFees config then nplus (buyFee fees) (sellFee fees) else Some 0)
                  (if includeWithdrawalFees config then withdrawalFee fees else Some 0)\<rparr>)"

definition calculateRiskScore :: "Ticker \<Rightarrow> Ticker \<Rightarrow> real \<Rightarrow> real \<Rightarrow> real" where
  "calculateRiskScore buy sell spreadPct v =
     (let score0 = NEUTRAL_RISK_SCORE;
          score1 = (if spreadPct < 0.5 then score0 + 2
                    else if spreadPct < 1 then score0 + 1
                    else if spreadPct > 2 then score0 - 1
                    else score0);
          score2 = (if v < 1000 then score1 + 2
                    else if v < 10000 then score1 + 1
                    else if v > 100000 then score1 - 1
                    else score1);
          score3 = (if fromCache buy then score2 + 0.5 else score2);
          score4 = (if fromCache sell then score3 + 0.5 else score3)
      in max 1 (min 10 score4))"

definition calculateConfidence :: "real \<Rightarrow> real \<Rightarrow> real \<Rightarrow> bool \<Rightarrow> bool \<Rightarrow> real" where
  "calculateConfidence spreadPct v risk buyFromCache sellFromCache =
     (let c0 = BASE_CONFIDENCE;
          c1 = c0 + spreadPct * 10;
          c2 = c1 + (10 - risk) * 5;
          c3 = (if v > 10000 then c2 + 10 else c2);
          c4 = (if v > 100000 then c3 + 10 else c3);
          c5 = (if \<not> buyFromCache then c4 + 5 else c4);
          c6 = (if \<not> sellFromCache then c5 + 5 else c5)
      in max 0 (min 100 c6))"

definition calculateOptimalVolume :: "real \<Rightarrow> real \<Rightarrow> real" where
  "calculateOptimalVolume availableVolume risk =
     (let riskFactor = (10 - risk) / 10
      in availableVolume * riskFactor * FRACTIONAL_KELLY)"

definition generateExecutionPath :: "string \<Rightarrow> string \<Rightarrow> string \<Rightarrow> string list" where
  "generateExecutionPath symb buyName sellName =
     [''1. Place buy order for '' @ symb @ '' on '' @ buyName,
      ''2. Wait for order fill confirmation'',
      ''3. Withdraw to '' @ sellName @ '' (if different network)'',
      ''4. Wait for deposit confirmation'',
      ''5. Place sell order on '' @ sellName,
      ''6. Wait for order fill confirmation'',
      ''7. Calculate final profit/loss'']"

definition estimateExecutionTime :: "string \<Rightarrow> string \<Rightarrow> nat" where
  "estimateExecutionTime buyName sellName = (if buyName \<noteq> sellName then 10 + 600 else 10)"

definition lessThanNumber :: "number \<Rightarrow> real \<Rightarrow> bool" where
  "lessThanNumber a y = (case a of None \<Rightarrow> False | Some x \<Rightarrow> x < y)"

definition generateWarnings :: "Ticker \<Rightarrow> Ticker \<Rightarrow> real \<Rightarrow> real \<Rightarrow> string list" where
  "generateWarnings buy sell spreadPct risk =
     (if spreadPct < 0.5 then [''Very tight spread - high execution risk''] else []) @
     (if risk > 7 then [''High risk score - proceed with caution''] else []) @
     (if fromCache buy \<or> fromCache sell
      then [''Using cached data - prices may have changed''] else []) @
     (if lessThanNumber (vol buy) 1000 \<or> lessThanNumber (vol sell) 1000
      then [''Low volume - may face liquidity issues''] else [])"

definition meetsThreshold :: "ArbitrageOpportunity \<Rightarrow> ScannerConfig \<Rightarrow> bool" where
  "meetsThreshold opportunity config =
     (nge (netProfitPercent opportunity) (Some (minProfitPercent config)) \<and>
      riskScore opportunity \<le> maxRiskScore config \<and>
      available (volume opportunity) \<ge> minVolume config)"

text \<open>
  \<open>analyzeOpportunity\<close> is private and has one call site, which has checked that the buy
  side's \<open>ask\<close> and the sell side's \<open>bid\<close> are present and positive; \<open>a\<close> and \<open>b\<close> below are
  those two numbers. (Without them the source computes with \<open>NaN\<close>; the model has no
  opportunity there.) \<open>now\<close> is the value of \<open>Date.now()\<close>.
\<close>

definition analyzeOpportunity ::
  "string \<Rightarrow> Ticker \<Rightarrow> Ticker \<Rightarrow> ScannerConfig \<Rightarrow> nat \<Rightarrow> ArbitrageOpportunity option" where
  "analyzeOpportunity symb buy sell config now =
     (case ask buy of None \<Rightarrow> None | Some a \<Rightarrow>
      (case bid sell of None \<Rightarrow> None | Some b \<Rightarrow>
        (let spread' = b - a;
             spreadPct = (if a > 0 then (spread' / a) * 100 else 0);
             fees' = calculateFees buy sell a b config;
             netProfit' = nminus (Some spread') (totalFees fees');
             netProfitPct = map_option (\<lambda>p. (p / a) * 100) netProfit'
         in if nle netProfit' (Some 0) then None
            else (case vol buy of None \<Rightarrow> None | Some vb \<Rightarrow>
                 (case vol sell of None \<Rightarrow> None | Some vs \<Rightarrow>
                   (if vb = 0 \<or> vs = 0 \<or> vb \<le> 0 \<or> vs \<le> 0 then None
                    else
                      (let availableVolume = min vb vs;
                           risk = calculateRiskScore buy sell spreadPct availableVolume;
                           path = generateExecutionPath symb (exchange buy) (exchange sell);
                           conf = calculateConfidence spreadPct availableVolume risk
                                    (fromCache buy) (fromCache sell)
                       in Some
                            \<lparr>oppId = symb @ ''-'' @ exchange buy @ ''-'' @ exchange sell @ ''-'' @
                                      showNat now,
                             symbol = symb,
                             buyExchange = exchange buy,
                             sellExchange = exchange sell,
                             buyPrice = a,
                             sellPrice = b,
                             spread = spread',
                             spreadPercent = spreadPct,
                             potentialProfit = spread' * availableVolume,
                             volume = \<lparr>available = availableVolume,
                                       optimal = calculateOptimalVolume availableVolume risk\<rparr>,
                             fees = fees',
                             netProfit = ntimes netProfit' (Some availableVolume),
                             netProfitPercent = netProfitPct,
                             riskScore = risk,
                             executionTime =
                               estimateExecutionTime (exchange buy) (exchange sell),
                             confidence = conf,
                             executionPath = path,
                             warnings = generateWarnings buy sell spreadPct risk\<rparr>)))))))"

text \<open>
  The test of the inner loop of \<open>scanForArbitrage\<close>:
  \<open>buy.ask && sell.bid && buy.ask > 0 && sell.bid > 0 && buy.ask < sell.bid\<close>.
\<close>

definition quotesCross :: "Ticker \<Rightarrow> Ticker \<Rightarrow> bool" where
  "quotesCross buy sell =
     (case ask buy of None \<Rightarrow> False | Some a \<Rightarrow>
      (case bid sell of None \<Rightarrow> False | Some b \<Rightarrow>
         a \<noteq> 0 \<and> b \<noteq> 0 \<and> a > 0 \<and> b > 0 \<and> a < b))"

text \<open>The body of the inner loop at indices \<open>i\<close>, \<open>j\<close>: what it pushes onto \<open>opportunities\<close>.\<close>

definition scanPair ::
  "string \<Rightarrow> ScannerConfig \<Rightarrow> (nat \<Rightarrow> nat \<Rightarrow> nat) \<Rightarrow> Ticker list \<Rightarrow> nat \<Rightarrow> nat
     \<Rightarrow> ArbitrageOpportunity list" where
  "scanPair symb cfg clock priceData i j =
     (if i = j then []
      else (let buy = priceData ! i; sell = priceData ! j
            in if quotesCross buy sell
               then (case analyzeOpportunity symb buy sell cfg (clock i j) of
                       Some opportunity \<Rightarrow>
                         (if meetsThreshold opportunity cfg then [opportunity] else [])
                     | None \<Rightarrow> [])
               else []))"

definition scanPairs ::
  "string \<Rightarrow> ScannerConfig \<Rightarrow> (nat \<Rightarrow> nat \<Rightarrow> nat) \<Rightarrow> Ticker list \<Rightarrow> ArbitrageOpportunity list" where
  "scanPairs symb cfg clock priceData =
     concat (map (\<lambda>i. concat (map (\<lambda>j. scanPair symb cfg clock priceData i j)
                                  [0..<length priceData]))
                 [0..<length priceData])"

text \<open>
  \<open>Array.prototype.sort\<close> with a comparator: a stable sort; a comparator result that is
  \<open>NaN\<close> counts as 0.
\<close>

fun insertBy :: "('a \<Rightarrow> 'a \<Rightarrow> number) \<Rightarrow> 'a \<Rightarrow> 'a list \<Rightarrow> 'a list" where
  "insertBy cmp x [] = [x]"
| "insertBy cmp x (y # ys) =
     (if (case cmp x y of None \<Rightarrow> True | Some c \<Rightarrow> c \<le> 0) then x # y # ys
      else y # insertBy cmp x ys)"

definition sortBy :: "('a \<Rightarrow> 'a \<Rightarrow> number) \<Rightarrow> 'a list \<Rightarrow> 'a list" where
  "sortBy cmp xs = foldr (insertBy cmp) xs []"

definition byNetProfit :: "ArbitrageOpportunity \<Rightarrow> ArbitrageOpportunity \<Rightarrow> number" where
  "byNetProfit a b = nminus (netProfit b) (netProfit a)"

text \<open>
  What one scan reads from outside: \<open>gateway i n\<close> scripts invocation \<open>n\<close> of the thunk
  built for the \<open>i\<close>-th requested venue (cache lookup, then the live fetch), \<open>clock i j\<close> is
  \<open>Date.now()\<close> when the pair \<open>(i, j)\<close> is analysed, \<open>finishedAt\<close> the time the scan ends.
\<close>

record ScanEnv =
  gateway :: "nat \<Rightarrow> nat \<Rightarrow> Ticker Attempt"
  clock :: "nat \<Rightarrow> nat \<Rightarrow> nat"
  finishedAt :: nat

definition fetchPricesFromExchanges ::
  "string \<Rightarrow> string list \<Rightarrow> (nat \<Rightarrow> nat \<Rightarrow> Ticker Attempt) \<Rightarrow> RetryStates
     \<Rightarrow> Ticker list \<times> RetryStates" where
  "fetchPricesFromExchanges symb exs gw states =
     (case executeBatch
             (map (\<lambda>(i, ex). \<lparr>exchangeId = ex, operation = gw i,
                               opContext = Some (''Fetching '' @ symb @ '' ticker'')\<rparr>)
                  (enumerate 0 exs))
             states of
        (results, events, states') \<Rightarrow>
          (List.map_filter (\<lambda>r. if success r then result r else None) results, states'))"

definition storeOpportunities ::
  "ArbitrageOpportunity list \<Rightarrow> (string \<times> ArbitrageOpportunity) list
     \<Rightarrow> (string \<times> ArbitrageOpportunity) list" where
  "storeOpportunities opps store = foldl (\<lambda>m opp. AList.update (oppId opp) opp m) store opps"

definition scanForArbitrage ::
  "string \<Rightarrow> string list \<Rightarrow> PartialScannerConfig \<Rightarrow> ScanEnv \<Rightarrow> Scanner \<Rightarrow> RetryStates
     \<Rightarrow> ArbitrageOpportunity list \<times> Scanner \<times> RetryStates" where
  "scanForArbitrage symb exs config env scanner states =
     (let cfg = mergeConfig defaultConfig config
      in case fetchPricesFromExchanges symb exs (gateway env) states of
           (priceData, states') \<Rightarrow>
             (let found = sortBy byNetProfit (scanPairs symb cfg (clock env) priceData)
              in (found,
                  scanner\<lparr>opportunities := storeOpportunities found (opportunities scanner),
                          lastScanTime := Some (finishedAt env)\<rparr>,
                  states')))"

text \<open>
  One pass of the loop of \<open>startContinuousScanning\<close>: a scan per configured symbol (what the
  loop writes to the console is left out).
  \<open>scanEnv k\<close> is what the scan of the \<open>k\<close>-th symbol reads; \<open>stopRequested\<close> tells whether
  \<open>stopScanning\<close> was called while the pass (its scans or its sleep) was suspended.
\<close>

record Pass =
  scanEnv :: "nat \<Rightarrow> ScanEnv"
  stopRequested :: bool

definition stopScanning :: "Scanner \<Rightarrow> Scanner" where
  "stopScanning scanner = scanner\<lparr>scannerRunning := False\<rparr>"

definition toPartial :: "ScannerConfig \<Rightarrow> PartialScannerConfig" where
  "toPartial c =
     \<lparr>minProfitPercent_opt = Some (minProfitPercent c),
      maxRiskScore_opt = Some (maxRiskScore c),
      minVolume_opt = Some (minVolume c),
      includeWithdrawalFees_opt = Some (includeWithdrawalFees c),
      includeTradingFees_opt = Some (includeTradingFees c),
      scanInterval_opt = Some (scanInterval c),
      exchanges_opt = Some (exchanges c),
      symbols_opt = Some (symbols c)\<rparr>"

definition runPass :: "ScannerConfig \<Rightarrow> Pass \<Rightarrow> Scanner \<Rightarrow> RetryStates \<Rightarrow> Scanner \<times> RetryStates" where
  "runPass cfg pass scanner states =
     foldl (\<lambda>(sc, st) (k, symb).
              (case scanForArbitrage symb (exchanges cfg) (toPartial cfg) (scanEnv pass k) sc st of
                 (found, sc', st') \<Rightarrow> (sc', st')))
           (scanner, states) (enumerate 0 (symbols cfg))"

text \<open>
  The \<open>while (this.scannerRunning)\<close> loop over the scripted passes. The first component
  tells whether the loop has ended; it is false when the script ends with the loop still
  running.
\<close>

fun scanLoop :: "ScannerConfig \<Rightarrow> Pass list \<Rightarrow> Scanner \<Rightarrow> RetryStates
    \<Rightarrow> bool \<times> Scanner \<times> RetryStates" where
  "scanLoop cfg [] scanner states = (\<not> scannerRunning scanner, scanner, states)"
| "scanLoop cfg (pass # passes) scanner states =
     (if scannerRunning scanner
      then (case runPass cfg pass scanner states of
              (scanner', states') \<Rightarrow>
                scanLoop cfg passes
                  (if stopRequested pass then stopScanning scanner' else scanner') states')
      else (True, scanner, states))"

text \<open>
  The result is \<open>Some (Inl error)\<close> when the call throws, \<open>Some (Inr ())\<close> when it returns,
  and \<open>None\<close> when it is still looping at the end of the script.
\<close>

definition startContinuousScanning ::
  "PartialScannerConfig \<Rightarrow> Pass list \<Rightarrow> Scanner \<Rightarrow> RetryStates
     \<Rightarrow> (JSError + unit) option \<times> Scanner \<times> RetryStates" where
  "startContinuousScanning config passes scanner states =
     (if scannerRunning scanner
      then (Some (Inl \<lparr>code = None, message = Some ''Scanner is already running''\<rparr>),
            scanner, states)
      else (let cfg = mergeConfig defaultConfig config
            in case scanLoop cfg passes (scanner\<lparr>scannerRunning := True\<rparr>) states of
                 (ended, scanner', states') \<Rightarrow>
                   (if ended then Some (Inr ()) else None, scanner', states')))"

section \<open>Quote cache (cache/lru-cache-manager.ts)\<close>

subsection \<open>The store behind each data class\<close>

text \<open>
  Modelled from the spec: the class \<open>LRUCache\<close> comes from the package \<open>lru-cache\<close>, whose
  code is not under the repository's sources; \<open>MarketDataCache\<close> constructs five instances
  and calls their \<open>get\<close>, \<open>set\<close> and \<open>clear\<close>. The spec describes each instance as a
  time-bounded least-recently-used store with a capacity and a freshness window; the model
  is such a store, and the options that the constructor passes mean in it what their names
  and the constructor's comments say:
  \<^item> \<open>max\<close>: a \<open>set\<close> of a new key into a full store first evicts the least recently used
    entry;
  \<^item> \<open>ttl\<close>: an entry whose age exceeds \<open>ttl\<close> is stale; \<open>get\<close> deletes a stale entry and
    returns nothing;
  \<^item> \<open>updateAgeOnGet\<close>: when true, a \<open>get\<close> that returns the entry resets its age to zero
    (the constructor passes false for the market store only, with the comment
    "Don't refresh on access", and true for the other four stores);
  \<^item> \<open>ttlAutopurge\<close>: each \<open>set\<close> arms a timer for \<open>ttl + 1\<close> ms later, which deletes the
    entry if it is stale when the timer fires. The model runs the timers that are due at
    the start of every operation.
  Times are in milliseconds. \<open>entries\<close> lists the most recently used entry first.
  (\<open>updateAgeOnHas\<close> has no effect: \<open>has\<close> is never called.)
\<close>

record 'v CacheEntry =
  val :: 'v
  start :: nat
  purgeAt :: "nat option"

record 'v LRUCache =
  maxEntries :: nat
  ttl :: nat
  updateAgeOnGet :: bool
  entries :: "(string \<times> 'v CacheEntry) list"

definition newLRUCache :: "nat \<Rightarrow> nat \<Rightarrow> bool \<Rightarrow> 'v LRUCache" where
  "newLRUCache m t u = \<lparr>maxEntries = m, ttl = t, updateAgeOnGet = u, entries = []\<rparr>"

definition isStale :: "nat \<Rightarrow> nat \<Rightarrow> 'v CacheEntry \<Rightarrow> bool" where
  "isStale t now e = (now - start e > t)"

definition fireTimer :: "nat \<Rightarrow> nat \<Rightarrow> string \<times> 'v CacheEntry \<Rightarrow> (string \<times> 'v CacheEntry) option" where
  "fireTimer t now ke =
     (case purgeAt (snd ke) of
        None \<Rightarrow> Some ke
      | Some due \<Rightarrow>
          (if due \<le> now
           then (if isStale t due (snd ke) then None
                 else Some (fst ke, (snd ke)\<lparr>purgeAt := None\<rparr>))
           else Some ke))"

definition autopurge :: "nat \<Rightarrow> 'v LRUCache \<Rightarrow> 'v LRUCache" where
  "autopurge now c = c\<lparr>entries := List.map_filter (fireTimer (ttl c) now) (entries c)\<rparr>"

definition lruGet :: "string \<Rightarrow> nat \<Rightarrow> 'v LRUCache \<Rightarrow> 'v option \<times> 'v LRUCache" where
  "lruGet k now c0 =
     (let c = autopurge now c0
      in case map_of (entries c) k of
           None \<Rightarrow> (None, c)
         | Some e \<Rightarrow>
             (if isStale (ttl c) now e
              then (None, c\<lparr>entries := AList.delete k (entries c)\<rparr>)
              else (Some (val e),
                    c\<lparr>entries := (k, if updateAgeOnGet c then e\<lparr>start := now\<rparr> else e)
                                   # AList.delete k (entries c)\<rparr>)))"

definition lruSet :: "string \<Rightarrow> 'v \<Rightarrow> nat \<Rightarrow> 'v LRUCache \<Rightarrow> 'v LRUCache" where
  "lruSet k v now c0 =
     (let c = autopurge now c0;
          e = \<lparr>val = v, start = now, purgeAt = Some (now + ttl c + 1)\<rparr>
      in case map_of (entries c) k of
           Some old \<Rightarrow> c\<lparr>entries := (k, e) # AList.delete k (entries c)\<rparr>
         | None \<Rightarrow>
             (if length (entries c) \<ge> maxEntries c
              then c\<lparr>entries := (k, e) # butlast (entries c)\<rparr>
              else c\<lparr>entries := (k, e) # entries c\<rparr>))"

definition lruClear :: "'v LRUCache \<Rightarrow> 'v LRUCache" where
  "lruClear c = c\<lparr>entries := []\<rparr>"

subsection \<open>class MarketDataCache\<close>

definition TICKER_TTL_MS :: int where "TICKER_TTL_MS = 10 * 1000"
definition ORDERBOOK_TTL_MS :: int where "ORDERBOOK_TTL_MS = 5 * 1000"
definition OHLCV_TTL_MS :: int where "OHLCV_TTL_MS = 60 * 1000"
definition MARKET_TTL_MS :: int where "MARKET_TTL_MS = 60 * 60 * 1000"
definition TRADES_TTL_MS :: int where "TRADES_TTL_MS = 10 * 1000"

definition TICKER_MAX_ENTRIES :: nat where "TICKER_MAX_ENTRIES = 500"
definition ORDERBOOK_MAX_ENTRIES :: nat where "ORDERBOOK_MAX_ENTRIES = 200"
definition OHLCV_MAX_ENTRIES :: nat where "OHLCV_MAX_ENTRIES = 300"
definition MARKET_MAX_ENTRIES :: nat where "MARKET_MAX_ENTRIES = 1000"
definition TRADES_MAX_ENTRIES :: nat where "TRADES_MAX_ENTRIES = 200"

record Metric =
  hits :: nat
  misses :: nat
  evictions :: nat

record Metrics =
  tickerMetric :: Metric
  orderBookMetric :: Metric
  ohlcvMetric :: Metric
  marketMetric :: Metric
  tradesMetric :: Metric

record 'v MarketDataCache =
  tickerCache :: "'v LRUCache"
  orderBookCache :: "'v LRUCache"
  ohlcvCache :: "'v LRUCache"
  marketCache :: "'v LRUCache"
  tradesCache :: "'v LRUCache"
  metrics :: Metrics

definition zeroMetric :: Metric where
  "zeroMetric = \<lparr>hits = 0, misses = 0, evictions = 0\<rparr>"

definition zeroMetrics :: Metrics where
  "zeroMetrics = \<lparr>tickerMetric = zeroMetric, orderBookMetric = zeroMetric,
                  ohlcvMetric = zeroMetric, marketMetric = zeroMetric,
                  tradesMetric = zeroMetric\<rparr>"

text \<open>The constructor: it rejects a TTL that is not positive, then builds the five stores.\<close>

definition builtCaches :: "'v MarketDataCache" where
  "builtCaches =
     \<lparr>tickerCache = newLRUCache TICKER_MAX_ENTRIES (nat TICKER_TTL_MS) True,
      orderBookCache = newLRUCache ORDERBOOK_MAX_ENTRIES (nat ORDERBOOK_TTL_MS) True,
      ohlcvCache = newLRUCache OHLCV_MAX_ENTRIES (nat OHLCV_TTL_MS) True,
      marketCache = newLRUCache MARKET_MAX_ENTRIES (nat MARKET_TTL_MS) False,
      tradesCache = newLRUCache TRADES_MAX_ENTRIES (nat TRADES_TTL_MS) True,
      metrics = zeroMetrics\<rparr>"

definition newMarketDataCache :: "JSError + 'v MarketDataCache" where
  "newMarketDataCache =
     (if TICKER_TTL_MS \<le> 0 \<or> ORDERBOOK_TTL_MS \<le> 0 \<or> OHLCV_TTL_MS \<le> 0 \<or>
         MARKET_TTL_MS \<le> 0 \<or> TRADES_TTL_MS \<le> 0
      then Inl \<lparr>code = None, message = Some ''Cache TTL values must be positive''\<rparr>
      else Inr builtCaches)"

definition getKey :: "string \<Rightarrow> string \<Rightarrow> string option \<Rightarrow> string" where
  "getKey ex symb extra =
     (case extra of
        None \<Rightarrow> ex @ '':'' @ symb
      | Some x \<Rightarrow> (if x = [] then ex @ '':'' @ symb else ex @ '':'' @ symb @ '':'' @ x))"

text \<open>
  The cached values are objects (tickers, order books, candle arrays, market tables, trade
  arrays), hence truthy: for them \<open>if (result)\<close> counts a hit exactly when the store
  returned a value. A falsy cached value (0, the empty string), which the source would
  count as a miss, is outside the model of the metrics.
\<close>

definition tally :: "'v option \<Rightarrow> Metric \<Rightarrow> Metric" where
  "tally r m = (case r of Some v \<Rightarrow> m\<lparr>hits := hits m + 1\<rparr> | None \<Rightarrow> m\<lparr>misses := misses m + 1\<rparr>)"

definition getTicker :: "string \<Rightarrow> string \<Rightarrow> nat \<Rightarrow> 'v MarketDataCache \<Rightarrow> 'v option \<times> 'v MarketDataCache" where
  "getTicker ex symb now c =
     (case lruGet (getKey ex symb None) now (tickerCache c) of
        (r, store) \<Rightarrow>
          (r, c\<lparr>tickerCache := store,
                 metrics := (metrics c)\<lparr>tickerMetric := tally r (tickerMetric (metrics c))\<rparr>\<rparr>))"

definition setTicker :: "string \<Rightarrow> string \<Rightarrow> 'v \<Rightarrow> nat \<Rightarrow> 'v MarketDataCache \<Rightarrow> 'v MarketDataCache" where
  "setTicker ex symb data now c =
     c\<lparr>tickerCache := lruSet (getKey ex symb None) data now (tickerCache c)\<rparr>"

definition getOrderBook ::
  "string \<Rightarrow> string \<Rightarrow> nat option \<Rightarrow> nat \<Rightarrow> 'v MarketDataCache \<Rightarrow> 'v option \<times> 'v MarketDataCache" where
  "getOrderBook ex symb limit now c =
     (case lruGet (getKey ex symb (map_option showNat limit)) now (orderBookCache c) of
        (r, store) \<Rightarrow>
          (r, c\<lparr>orderBookCache := store,
                 metrics := (metrics c)\<lparr>orderBookMetric := tally r (orderBookMetric (metrics c))\<rparr>\<rparr>))"

definition setOrderBook ::
  "string \<Rightarrow> string \<Rightarrow> 'v \<Rightarrow> nat option \<Rightarrow> nat \<Rightarrow> 'v MarketDataCache \<Rightarrow> 'v MarketDataCache" where
  "setOrderBook ex symb data limit now c =
     c\<lparr>orderBookCache :=
         lruSet (getKey ex symb (map_option showNat limit)) data now (orderBookCache c)\<rparr>"

definition getOHLCV ::
  "string \<Rightarrow> string \<Rightarrow> string \<Rightarrow> nat \<Rightarrow> 'v MarketDataCache \<Rightarrow> 'v option \<times> 'v MarketDataCache" where
  "getOHLCV ex symb timeframe now c =
     (case lruGet (getKey ex symb (Some timeframe)) now (ohlcvCache c) of
        (r, store) \<Rightarrow>
          (r, c\<lparr>ohlcvCache := store,
                 metrics := (metrics c)\<lparr>ohlcvMetric := tally r (ohlcvMetric (metrics c))\<rparr>\<rparr>))"

definition setOHLCV ::
  "string \<Rightarrow> string \<Rightarrow> string \<Rightarrow> 'v \<Rightarrow> nat \<Rightarrow> 'v MarketDataCache \<Rightarrow> 'v MarketDataCache" where
  "setOHLCV ex symb timeframe data now c =
     c\<lparr>ohlcvCache := lruSet (getKey ex symb (Some timeframe)) data now (ohlcvCache c)\<rparr>"

definition getMarkets :: "string \<Rightarrow> nat \<Rightarrow> 'v MarketDataCache \<Rightarrow> 'v option \<times> 'v MarketDataCache" where
  "getMarkets ex now c =
     (case lruGet ex now (marketCache c) of
        (r, store) \<Rightarrow>
          (r, c\<lparr>marketCache := store,
                 metrics := (metrics c)\<lparr>marketMetric := tally r (marketMetric (metrics c))\<rparr>\<rparr>))"

definition setMarkets :: "string \<Rightarrow> 'v \<Rightarrow> nat \<Rightarrow> 'v MarketDataCache \<Rightarrow> 'v MarketDataCache" where
  "setMarkets ex data now c = c\<lparr>marketCache := lruSet ex data now (marketCache c)\<rparr>"

definition getTrades ::
  "string \<Rightarrow> string \<Rightarrow> nat option \<Rightarrow> nat \<Rightarrow> 'v MarketDataCache \<Rightarrow> 'v option \<times> 'v MarketDataCache" where
  "getTrades ex symb limit now c =
     (case lruGet (getKey ex symb (map_option showNat limit)) now (tradesCache c) of
        (r, store) \<Rightarrow>
          (r, c\<lparr>tradesCache := store,
                 metrics := (metrics c)\<lparr>tradesMetric := tally r (tradesMetric (metrics c))\<rparr>\<rparr>))"

definition setTrades ::
  "string \<Rightarrow> string \<Rightarrow> 'v \<Rightarrow> nat option \<Rightarrow> nat \<Rightarrow> 'v MarketDataCache \<Rightarrow> 'v MarketDataCache" where
  "setTrades ex symb data limit now c =
     c\<lparr>tradesCache :=
         lruSet (getKey ex symb (map_option showNat limit)) data now (tradesCache c)\<rparr>"

definition clearAllCaches :: "'v MarketDataCache \<Rightarrow> 'v MarketDataCache" where
  "clearAllCaches c =
     c\<lparr>tickerCache := lruClear (tickerCache c),
       orderBookCache := lruClear (orderBookCache c),
       ohlcvCache := lruClear (ohlcvCache c),
       marketCache := lruClear (marketCache c),
       tradesCache := lruClear (tradesCache c)\<rparr>"

subsection \<open>The five classes under one contract\<close>

text \<open>
  A request names a data class and the arguments that make its key, so that \<open>cacheGet\<close>
  and \<open>cacheSet\<close> are the five pairs of methods seen as \<open>get(class, key)\<close> and
  \<open>set(class, key, value)\<close>.
\<close>

datatype Request =
    TickerOf string string
  | OrderBookOf string string "nat option"
  | OHLCVOf string string string
  | MarketsOf string
  | TradesOf string string "nat option"

fun cacheGet :: "Request \<Rightarrow> nat \<Rightarrow> 'v MarketDataCache \<Rightarrow> 'v option \<times> 'v MarketDataCache" where
  "cacheGet (TickerOf ex symb) now c = getTicker ex symb now c"
| "cacheGet (OrderBookOf ex symb limit) now c = getOrderBook ex symb limit now c"
| "cacheGet (OHLCVOf ex symb timeframe) now c = getOHLCV ex symb timeframe now c"
| "cacheGet (MarketsOf ex) now c = getMarkets ex now c"
| "cacheGet (TradesOf ex symb limit) now c = getTrades ex symb limit now c"

fun cacheSet :: "Request \<Rightarrow> 'v \<Rightarrow> nat \<Rightarrow> 'v MarketDataCache \<Rightarrow> 'v MarketDataCache" where
  "cacheSet (TickerOf ex symb) data now c = setTicker ex symb data now c"
| "cacheSet (OrderBookOf ex symb limit) data now c = setOrderBook ex symb data limit now c"
| "cacheSet (OHLCVOf ex symb timeframe) data now c = setOHLCV ex symb timeframe data now c"
| "cacheSet (MarketsOf ex) data now c = setMarkets ex data now c"
| "cacheSet (TradesOf ex symb limit) data now c = setTrades ex symb data limit now c"

datatype DataClass = TickerClass | OrderBookClass | OHLCVClass | MarketClass | TradesClass

fun classOf :: "Request \<Rightarrow> DataClass" where
  "classOf (TickerOf ex symb) = TickerClass"
| "classOf (OrderBookOf ex symb limit) = OrderBookClass"
| "classOf (OHLCVOf ex symb timeframe) = OHLCVClass"
| "classOf (MarketsOf ex) = MarketClass"
| "classOf (TradesOf ex symb limit) = TradesClass"

fun keyOf :: "Request \<Rightarrow> string" where
  "keyOf (TickerOf ex symb) = getKey ex symb None"
| "keyOf (OrderBookOf ex symb limit) = getKey ex symb (map_option showNat limit)"
| "keyOf (OHLCVOf ex symb timeframe) = getKey ex symb (Some timeframe)"
| "keyOf (MarketsOf ex) = ex"
| "keyOf (TradesOf ex symb limit) = getKey ex symb (map_option showNat limit)"

fun storeOf :: "DataClass \<Rightarrow> 'v MarketDataCache \<Rightarrow> 'v LRUCache" where
  "storeOf TickerClass c = tickerCache c"
| "storeOf OrderBookClass c = orderBookCache c"
| "storeOf OHLCVClass c = ohlcvCache c"
| "storeOf MarketClass c = marketCache c"
| "storeOf TradesClass c = tradesCache c"

text \<open>A timed history of cache calls, run from left to right.\<close>

datatype 'v CacheCall = Get Request | Put Request 'v

fun runCall :: "nat \<times> 'v CacheCall \<Rightarrow> 'v MarketDataCache \<Rightarrow> 'v MarketDataCache" where
  "runCall (now, Get r) c = snd (cacheGet r now c)"
| "runCall (now, Put r v) c = cacheSet r v now c"

definition runCalls :: "(nat \<times> 'v CacheCall) list \<Rightarrow> 'v MarketDataCache \<Rightarrow> 'v MarketDataCache" where
  "runCalls calls c = foldl (\<lambda>c call. runCall call c) c calls"

fun putsKey :: "DataClass \<Rightarrow> string \<Rightarrow> 'v CacheCall \<Rightarrow> bool" where
  "putsKey cls k (Get r) = False"
| "putsKey cls k (Put r v) = (classOf r = cls \<and> keyOf r = k)"

section \<open>The claimed formula and example data\<close>

text \<open>
  The net profit as the specification words it:
  \<open>(sellPrice - buyPrice) \<times> volume - totalFees\<close>, to compare with the field the scanner fills.
\<close>

definition claimedNetProfit :: "ArbitrageOpportunity \<Rightarrow> number" where
  "claimedNetProfit opp =
     nminus (Some ((sellPrice opp - buyPrice opp) * available (volume opp))) (totalFees (fees opp))"

text \<open>The order of the returned list: no later opportunity has a larger net profit.\<close>

definition netProfitDescending :: "ArbitrageOpportunity \<Rightarrow> ArbitrageOpportunity \<Rightarrow> bool" where
  "netProfitDescending a b = nge (netProfit a) (netProfit b)"

text \<open>
  Three live quotes for one symbol, each fetched at the first attempt, scanned with
  trading fees and without withdrawal fees.
\<close>

definition quoteA :: Ticker where
  "quoteA = \<lparr>exchange = ''binance'', bid = Some 100, ask = Some 101, vol = Some 5000,
             fromCache = False\<rparr>"

definition quoteB :: Ticker where
  "quoteB = \<lparr>exchange = ''kraken'', bid = Some 103, ask = Some 104, vol = Some 5000,
             fromCache = False\<rparr>"

definition quoteC :: Ticker where
  "quoteC = \<lparr>exchange = ''okx'', bid = Some 105, ask = Some 106, vol = Some 5000,
             fromCache = False\<rparr>"

definition exampleGateway :: "nat \<Rightarrow> nat \<Rightarrow> Ticker Attempt" where
  "exampleGateway i n =
     \<lparr>outcome = Inr (if i = 0 then quoteA else if i = 1 then quoteB else quoteC),
      entered = 1000, settled = 1001, random = 0\<rparr>"

definition exampleClock :: "nat \<Rightarrow> nat \<Rightarrow> nat" where
  "exampleClock i j = 1002"

definition exampleEnv :: ScanEnv where
  "exampleEnv = \<lparr>gateway = exampleGateway, clock = exampleClock, finishedAt = 1003\<rparr>"

definition exampleConfig :: PartialScannerConfig where
  "exampleConfig =
     \<lparr>minProfitPercent_opt = None, maxRiskScore_opt = None, minVolume_opt = None,
      includeWithdrawalFees_opt = Some False, includeTradingFees_opt = None,
      scanInterval_opt = None, exchanges_opt = None, symbols_opt = None\<rparr>"

definition idleScanner :: Scanner where
  "idleScanner = \<lparr>opportunities = [], scannerRunning = False, lastScanTime = None\<rparr>"

definition exampleScan :: "ArbitrageOpportunity list" where
  "exampleScan =
     fst (scanForArbitrage ''BTC/USDT'' [''binance'', ''kraken'', ''okx''] exampleConfig
            exampleEnv idleScanner Map.empty)"

text \<open>
  The same scan by a caller who passes all three thresholds: a net profit of at least 2 %,
  a risk score of at most 6 and a volume of at least 50.
\<close>

definition strictConfig :: PartialScannerConfig where
  "strictConfig =
     \<lparr>minProfitPercent_opt = Some 2, maxRiskScore_opt = Some 6, minVolume_opt = Some 50,
      includeWithdrawalFees_opt = Some False, includeTradingFees_opt = None,
      scanInterval_opt = None, exchanges_opt = None, symbols_opt = None\<rparr>"

definition strictScan :: "ArbitrageOpportunity list" where
  "strictScan =
     fst (scanForArbitrage ''BTC/USDT'' [''binance'', ''kraken'', ''okx''] strictConfig
            exampleEnv idleScanner Map.empty)"

definition exampleQuotes :: "Ticker list" where
  "exampleQuotes = [quoteA, quoteB, quoteC]"

definition exampleMerged :: ScannerConfig where
  "exampleMerged = mergeConfig defaultConfig exampleConfig"

text \<open>
  The fee lookup as the specification words it: \<open>feesFor(venueId)\<close> is the venue's row of
  the fee table, or the default profile for a venue that has none.
\<close>

definition feesFor :: "string \<Rightarrow> ExchangeFees" where
  "feesFor venueId =
     (case map_of EXCHANGE_FEES (toLowerCase venueId) of Some f \<Rightarrow> f | None \<Rightarrow> DEFAULT_FEES)"

text \<open>A scanner whose continuous loop is running, holding the result of an earlier scan.\<close>

definition runningScanner :: Scanner where
  "runningScanner =
     \<lparr>opportunities = map (\<lambda>opp. (oppId opp, opp)) exampleScan, scannerRunning = True,
      lastScanTime = Some 1003\<rparr>"

definition examplePass :: Pass where
  "examplePass = \<lparr>scanEnv = (\<lambda>k. exampleEnv), stopRequested = True\<rparr>"

text \<open>The invocation numbers in a list of events, in order.\<close>

fun invocations :: "Event list \<Rightarrow> nat list" where
  "invocations [] = []"
| "invocations (Sleep ms # es) = invocations es"
| "invocations (Invoke n # es) = n # invocations es"

text \<open>The retry states as the \<open>catch\<close> block leaves them after its three updates.\<close>

definition recordFailure :: "nat \<Rightarrow> nat \<Rightarrow> string \<Rightarrow> RetryStates \<Rightarrow> RetryStates" where
  "recordFailure enteredAt settledAt ex states =
     (let state = fst (getOrCreateState enteredAt ex states);
          states1 = snd (getOrCreateState enteredAt ex states)
      in states1(ex \<mapsto> state\<lparr>retryCount := retryCount state + 1, lastError := settledAt,
                                 consecutiveErrors := consecutiveErrors state + 1\<rparr>))"

text \<open>Each entry of a settled list is either a success with its result or a failure with its error.\<close>

definition settledShape :: "'a Settled \<Rightarrow> bool" where
  "settledShape s =
     (if success s then result s \<noteq> None \<and> error s = None
      else result s = None \<and> error s \<noteq> None)"

text \<open>
  Scripted operations: a timeout on each of the first five invocations and the value 42
  on the sixth; an authentication failure on every invocation; a timeout on every
  invocation; the value 7 at once.
\<close>

definition timeoutError :: JSError where
  "timeoutError = \<lparr>code = Some ''ETIMEDOUT'', message = Some ''request timed out''\<rparr>"

definition authError :: JSError where
  "authError = \<lparr>code = Some ''INVALID_CREDENTIALS'', message = Some ''bad credentials''\<rparr>"

definition flakyOperation :: "nat \<Rightarrow> nat Attempt" where
  "flakyOperation n =
     \<lparr>outcome = (if n < 5 then Inl timeoutError else Inr 42),
      entered = 1000 * n, settled = 1000 * n + 10, random = 0\<rparr>"

definition authOperation :: "nat \<Rightarrow> nat Attempt" where
  "authOperation n = \<lparr>outcome = Inl authError, entered = 1000 * n, settled = 1000 * n + 10, random = 0\<rparr>"

definition downOperation :: "nat \<Rightarrow> nat Attempt" where
  "downOperation n = \<lparr>outcome = Inl timeoutError, entered = 1000 * n, settled = 1000 * n + 10, random = 0\<rparr>"




definition lateAuthOperation :: "nat \<Rightarrow> nat Attempt" where
  "lateAuthOperation n =
     \<lparr>outcome = Inl (if n < 2 then timeoutError else authError),
      entered = 1000 * n, settled = 1000 * n + 10, random = 0\<rparr>"

text \<open>The order in which \<open>executeBatch\<close> runs the operations: venue group after venue group.\<close>

definition batchOrder :: "'a Operation list \<Rightarrow> 'a Operation list" where
  "batchOrder operations = concat (map snd (grouped operations))"

section \<open>Notions for the cache properties\<close>

text \<open>
  A call can reset the age of the entry of key \<open>k\<close> in class \<open>cls\<close> when it is a set of
  that key, or a get of that key in a class whose store was built with \<open>updateAgeOnGet\<close>
  (whether or not the get finds the entry).
\<close>

fun resetsAge :: "'v MarketDataCache \<Rightarrow> DataClass \<Rightarrow> string \<Rightarrow> 'v CacheCall \<Rightarrow> bool" where
  "resetsAge c cls k (Get r) = (classOf r = cls \<and> keyOf r = k \<and> updateAgeOnGet (storeOf cls c))"
| "resetsAge c cls k (Put r v) = (classOf r = cls \<and> keyOf r = k)"

text \<open>The calls of a history that leave the age of the entry of request \<open>r\<close> alone.\<close>

definition leavesAge :: "'v MarketDataCache \<Rightarrow> Request \<Rightarrow> nat \<times> 'v CacheCall \<Rightarrow> bool" where
  "leavesAge c r call = (\<not> resetsAge c (classOf r) (keyOf r) (snd call))"

text \<open>
  The calls of a history that do not set the key of request \<open>r\<close> and are made no earlier
  than \<open>t0\<close> and no later than the TTL of the class of \<open>r\<close> after \<open>t0\<close>.
\<close>

definition insideWindow :: "'v MarketDataCache \<Rightarrow> Request \<Rightarrow> nat \<Rightarrow> nat \<times> 'v CacheCall \<Rightarrow> bool" where
  "insideWindow c r t0 call =
     (\<not> putsKey (classOf r) (keyOf r) (snd call) \<and>
      t0 \<le> fst call \<and> fst call \<le> t0 + ttl (storeOf (classOf r) c))"

text \<open>
  A call, made in state \<open>c\<close>, renews the age of the entry of request \<open>r\<close> when it is a set
  of that key, or a get of that key that returns a value in a class whose store was built
  with \<open>updateAgeOnGet\<close>.
\<close>

fun renewsAge :: "'v MarketDataCache \<Rightarrow> Request \<Rightarrow> nat \<times> 'v CacheCall \<Rightarrow> bool" where
  "renewsAge c r (now, Get r') =
     (classOf r' = classOf r \<and> keyOf r' = keyOf r \<and> updateAgeOnGet (storeOf (classOf r) c) \<and>
      fst (cacheGet r' now c) \<noteq> None)"
| "renewsAge c r (now, Put r' v) = (classOf r' = classOf r \<and> keyOf r' = keyOf r)"

text \<open>
  The time of the last call of a history, run from state \<open>c\<close>, that renewed the age of the
  entry of request \<open>r\<close>; \<open>a\<close> when no call did.
\<close>

fun lastRenewal :: "Request \<Rightarrow> (nat \<times> 'v CacheCall) list \<Rightarrow> 'v MarketDataCache \<Rightarrow> nat \<Rightarrow> nat" where
  "lastRenewal r [] c a = a"
| "lastRenewal r (call # calls) c a =
     lastRenewal r calls (runCall call c) (if renewsAge c r call then fst call else a)"

text \<open>The calls of a history that do not set the key of request \<open>r\<close>.\<close>

definition leavesKey :: "Request \<Rightarrow> nat \<times> 'v CacheCall \<Rightarrow> bool" where
  "leavesKey r call = (\<not> putsKey (classOf r) (keyOf r) (snd call))"

text \<open>How many entries of a store are more recently used than the first entry of key \<open>k\<close>.\<close>

fun position :: "string \<Rightarrow> (string \<times> 'v CacheEntry) list \<Rightarrow> nat" where
  "position k [] = 0"
| "position k (ke # es) = (if fst ke = k then 0 else Suc (position k es))"

text \<open>Every entry of key \<open>k\<close> in the store has its age counted from \<open>t0\<close> or earlier.\<close>

definition startedBy :: "nat \<Rightarrow> string \<Rightarrow> 'v LRUCache \<Rightarrow> bool" where
  "startedBy t0 k c = list_all (\<lambda>ke. fst ke \<noteq> k \<or> start (snd ke) \<le> t0) (entries c)"

text \<open>A purge timer, if armed, is due later than \<open>t\<close>.\<close>

fun dueAfter :: "nat \<Rightarrow> nat option \<Rightarrow> bool" where
  "dueAfter t None = True"
| "dueAfter t (Some due) = (t < due)"

text \<open>
  The store holds value \<open>v\<close> under key \<open>k\<close>, with an age counted from \<open>t0\<close> or later, no purge
  timer due before the TTL after \<open>t0\<close> has passed, and at most \<open>n\<close> entries used more recently.
\<close>

definition kept :: "string \<Rightarrow> 'v \<Rightarrow> nat \<Rightarrow> nat \<Rightarrow> 'v LRUCache \<Rightarrow> bool" where
  "kept k v t0 n c =
     (case map_of (entries c) k of
        None \<Rightarrow> False
      | Some e \<Rightarrow>
          val e = v \<and> t0 \<le> start e \<and>
          dueAfter (t0 + ttl c) (purgeAt e) \<and>
          position k (entries c) \<le> n)"

text \<open>
  Examples. One ticker, stored at time 0; a history that reads another ticker at 3 s; a
  history that reads the stored ticker at 6 s and stores another one at 7 s; a history
  that reads the markets of one venue after 1 s and after 30 min. A store of capacity 2
  into which three keys are set.
\<close>

definition btcOnBinance :: Request where
  "btcOnBinance = TickerOf ''binance'' ''BTC/USDT''"

definition btcOnKraken :: Request where
  "btcOnKraken = TickerOf ''kraken'' ''BTC/USDT''"

definition storedCache :: "Ticker MarketDataCache" where
  "storedCache = cacheSet btcOnBinance quoteA 0 builtCaches"

definition quietCalls :: "(nat \<times> Ticker CacheCall) list" where
  "quietCalls = [(3000, Get btcOnKraken)]"

definition busyCalls :: "(nat \<times> Ticker CacheCall) list" where
  "busyCalls = [(6000, Get btcOnBinance), (7000, Put btcOnKraken quoteB)]"

definition marketReads :: "(nat \<times> Ticker CacheCall) list" where
  "marketReads = [(1000, Get (MarketsOf ''binance'')), (1800000, Get (MarketsOf ''binance''))]"

definition smallStore :: "nat LRUCache" where
  "smallStore = lruSet ''c'' 3 30 (lruSet ''b'' 2 20 (lruSet ''a'' 1 10 (newLRUCache 2 10000 True)))"

section \<open>Properties of the scanner\<close>

subsection \<open>Sorting with the comparator\<close>

lemma set_insertBy: "set (insertBy cmp x ys) = insert x (set ys)"
  by (induction ys) auto

lemma set_sortBy: "set (sortBy cmp xs) = set xs"
  by (induction xs) (auto simp: sortBy_def set_insertBy)

lemma byNetProfit_le:
  "netProfit x = Some p \<Longrightarrow> netProfit y = Some q \<Longrightarrow>
   (case byNetProfit x y of None \<Rightarrow> True | Some c \<Rightarrow> c \<le> 0) = (q \<le> p)"
  by (simp add: byNetProfit_def nminus_def lift2_def)

lemma sorted_insertBy:
  assumes "sorted_wrt netProfitDescending ys" "\<forall>y\<in>set ys. netProfit y \<noteq> None"
    and "netProfit x \<noteq> None"
  shows "sorted_wrt netProfitDescending (insertBy byNetProfit x ys)"
  using assms
proof (induction ys)
  case Nil
  then show ?case by simp
next
  case (Cons y ys)
  obtain p q where pq: "netProfit x = Some p" "netProfit y = Some q"
    using Cons.prems by auto
  show ?case
  proof (cases "q \<le> p")
    case True
    have "\<forall>z\<in>set ys. netProfitDescending x z"
    proof
      fix z assume z: "z \<in> set ys"
      then have "netProfitDescending y z" using Cons.prems(1) by simp
      then show "netProfitDescending x z" using pq True
        by (auto simp: netProfitDescending_def nge_def nle_def split: option.splits)
    qed
    moreover have "netProfitDescending x y"
      using pq True by (simp add: netProfitDescending_def nge_def nle_def)
    ultimately show ?thesis using Cons.prems(1) pq True byNetProfit_le[OF pq]
      by simp
  next
    case False
    have "sorted_wrt netProfitDescending (insertBy byNetProfit x ys)"
      using Cons by simp
    moreover have "netProfitDescending y x"
      using pq False by (simp add: netProfitDescending_def nge_def nle_def)
    ultimately show ?thesis using Cons.prems pq False byNetProfit_le[OF pq]
      by (simp add: set_insertBy)
  qed
qed

lemma sorted_sortBy:
  "\<forall>y\<in>set xs. netProfit y \<noteq> None \<Longrightarrow> sorted_wrt netProfitDescending (sortBy byNetProfit xs)"
proof (induction xs)
  case Nil
  then show ?case by (simp add: sortBy_def)
next
  case (Cons x xs)
  then have "sorted_wrt netProfitDescending (sortBy byNetProfit xs)" by simp
  then have "sorted_wrt netProfitDescending (insertBy byNetProfit x (sortBy byNetProfit xs))"
    using Cons.prems by (intro sorted_insertBy) (auto simp: set_sortBy)
  then show ?case by (simp add: sortBy_def)
qed

subsection \<open>Where a returned opportunity comes from\<close>

lemma scanPairs_member:
  "opp \<in> set (scanPairs symb cfg clk pd) \<longleftrightarrow>
   (\<exists>i j. i < length pd \<and> j < length pd \<and> opp \<in> set (scanPair symb cfg clk pd i j))"
  by (force simp: scanPairs_def)

lemma scanPair_member:
  "opp \<in> set (scanPair symb cfg clk pd i j) \<longleftrightarrow>
   (i \<noteq> j \<and> quotesCross (pd ! i) (pd ! j) \<and>
    analyzeOpportunity symb (pd ! i) (pd ! j) cfg (clk i j) = Some opp \<and> meetsThreshold opp cfg)"
  by (cases "i = j"; cases "quotesCross (pd ! i) (pd ! j)";
      cases "analyzeOpportunity symb (pd ! i) (pd ! j) cfg (clk i j)")
     (simp_all add: scanPair_def Let_def, auto)

lemma scanForArbitrage_result:
  "fst (scanForArbitrage symb exs config env scanner states) =
   sortBy byNetProfit (scanPairs symb (mergeConfig defaultConfig config) (clock env)
     (fst (fetchPricesFromExchanges symb exs (gateway env) states)))"
  by (simp add: scanForArbitrage_def Let_def case_prod_beta)

lemma scanForArbitrage_member:
  assumes "opp \<in> set (fst (scanForArbitrage symb exs config env scanner states))"
  shows "\<exists>i j. i < length (fst (fetchPricesFromExchanges symb exs (gateway env) states)) \<and>
               j < length (fst (fetchPricesFromExchanges symb exs (gateway env) states)) \<and>
               opp \<in> set (scanPair symb (mergeConfig defaultConfig config) (clock env)
                             (fst (fetchPricesFromExchanges symb exs (gateway env) states)) i j)"
  using assms by (simp add: scanForArbitrage_result set_sortBy scanPairs_member)

text \<open>What \<open>analyzeOpportunity\<close> has put into an opportunity that passes the thresholds.\<close>

lemma analyzeOpportunity_Some:
  assumes "analyzeOpportunity symb buy sell cfg now = Some opp"
    and "meetsThreshold opp cfg"
  shows "\<exists>a b t vb vs.
           ask buy = Some a \<and> bid sell = Some b \<and> vol buy = Some vb \<and> vol sell = Some vs \<and>
           0 < vb \<and> 0 < vs \<and>
           totalFees (calculateFees buy sell a b cfg) = Some t \<and> 0 < b - a - t \<and>
           buyPrice opp = a \<and> sellPrice opp = b \<and>
           buyExchange opp = exchange buy \<and> sellExchange opp = exchange sell \<and>
           fees opp = calculateFees buy sell a b cfg \<and>
           available (volume opp) = min vb vs \<and>
           netProfit opp = Some ((b - a - t) * min vb vs) \<and>
           netProfitPercent opp = Some (((b - a - t) / a) * 100) \<and>
           riskScore opp = calculateRiskScore buy sell (spreadPercent opp) (min vb vs) \<and>
           confidence opp =
             calculateConfidence (spreadPercent opp) (min vb vs) (riskScore opp)
               (fromCache buy) (fromCache sell)"
proof -
  from assms(1) obtain a b vb vs where
    ab: "ask buy = Some a" "bid sell = Some b" "vol buy = Some vb" "vol sell = Some vs"
    by (auto simp: analyzeOpportunity_def Let_def split: option.splits if_splits)
  from assms(1) ab have pos: "0 < vb" "0 < vs"
    by (auto simp: analyzeOpportunity_def Let_def split: option.splits if_splits)
  define f where "f = calculateFees buy sell a b cfg"
  define np where "np = nminus (Some (b - a)) (totalFees f)"
  define sp where "sp = (if a > 0 then ((b - a) / a) * 100 else 0)"
  define rk where "rk = calculateRiskScore buy sell sp (min vb vs)"
  from assms(1) ab have notle: "\<not> nle np (Some 0)"
    by (auto simp: analyzeOpportunity_def Let_def np_def f_def split: option.splits if_splits)
  from assms(1) ab pos notle have opp:
    "opp = \<lparr>oppId = symb @ ''-'' @ exchange buy @ ''-'' @ exchange sell @ ''-'' @ showNat now,
            symbol = symb, buyExchange = exchange buy, sellExchange = exchange sell,
            buyPrice = a, sellPrice = b, spread = b - a, spreadPercent = sp,
            potentialProfit = (b - a) * min vb vs,
            volume = \<lparr>available = min vb vs, optimal = calculateOptimalVolume (min vb vs) rk\<rparr>,
            fees = f,
            netProfit = ntimes np (Some (min vb vs)),
            netProfitPercent = map_option (\<lambda>p. (p / a) * 100) np,
            riskScore = rk,
            executionTime = estimateExecutionTime (exchange buy) (exchange sell),
            confidence = calculateConfidence sp (min vb vs) rk (fromCache buy) (fromCache sell),
            executionPath = generateExecutionPath symb (exchange buy) (exchange sell),
            warnings = generateWarnings buy sell sp rk\<rparr>"
    by (simp add: analyzeOpportunity_def Let_def np_def f_def sp_def rk_def split: if_splits)
  from assms(2) have "netProfitPercent opp \<noteq> None"
    by (auto simp: meetsThreshold_def nge_def nle_def split: option.splits)
  then obtain p where p: "np = Some p" by (auto simp: opp)
  then obtain t where t: "totalFees f = Some t" "p = b - a - t"
    by (auto simp: np_def nminus_def lift2_def split: option.splits)
  from notle p have "0 < p" by (simp add: nle_def)
  then show ?thesis using ab pos t p
    by (simp add: opp f_def[symmetric] rk_def ntimes_def lift2_def)
qed

subsection \<open>Net profit of a returned opportunity\<close>

text \<open>
  Claim C1, as amended. For every opportunity that \<open>scanForArbitrage\<close> returns, the
  \<open>netProfit\<close> field equals (sellPrice - buyPrice - totalFees) times the available volume,
  where totalFees is the opportunity's \<open>fees.totalFees\<close> (the fees are subtracted per unit
  before the multiplication by the volume), and \<open>netProfit\<close> is strictly positive.
\<close>

theorem scan_netProfit:
  assumes "opp \<in> set (fst (scanForArbitrage symb exs config env scanner states))"
  shows "\<exists>t p. totalFees (fees opp) = Some t \<and> netProfit opp = Some p \<and>
               p = (sellPrice opp - buyPrice opp - t) * available (volume opp) \<and> 0 < p"
proof -
  from scanForArbitrage_member[OF assms] obtain pd i j where
    m: "opp \<in> set (scanPair symb (mergeConfig defaultConfig config) (clock env) pd i j)"
    by blast
  then have a: "analyzeOpportunity symb (pd ! i) (pd ! j) (mergeConfig defaultConfig config)
                  (clock env i j) = Some opp"
    and t: "meetsThreshold opp (mergeConfig defaultConfig config)"
    by (simp_all add: scanPair_member)
  from analyzeOpportunity_Some[OF a t] obtain a b t vb vs where
    f: "0 < vb" "0 < vs" "totalFees (fees opp) = Some t" "0 < b - a - t"
       "buyPrice opp = a" "sellPrice opp = b" "available (volume opp) = min vb vs"
       "netProfit opp = Some ((b - a - t) * min vb vs)"
    by auto
  have "0 < (b - a - t) * min vb vs" using f(1,2,4) by simp
  then show ?thesis using f by simp
qed

theorem scan_netProfit_witness:
  "exampleScan ! 1 \<in> set exampleScan \<and>
   (\<exists>t p. totalFees (fees (exampleScan ! 1)) = Some t \<and> netProfit (exampleScan ! 1) = Some p \<and>
          p = (sellPrice (exampleScan ! 1) - buyPrice (exampleScan ! 1) - t)
                * available (volume (exampleScan ! 1)) \<and> 0 < p)"
proof -
  have m: "exampleScan ! 1 \<in> set exampleScan"
    by code_simp
  then have "exampleScan ! 1 \<in> set (fst (scanForArbitrage ''BTC/USDT''
               [''binance'', ''kraken'', ''okx''] exampleConfig exampleEnv idleScanner Map.empty))"
    by (simp add: exampleScan_def)
  from scan_netProfit[OF this] m show ?thesis
    by blast
qed

text \<open>
  The claim as the specification states it fails on the example scan: the three returned
  opportunities have net profits 18970, 8156 and 3123, where
  (sellPrice - buyPrice) \<times> volume - totalFees gives 19999.794, 9999.6312 and 4999.6246.
\<close>

theorem scan_netProfit_counterexample:
  "map netProfit exampleScan = [Some 18970, Some 8156, Some 3123] \<and>
   map claimedNetProfit exampleScan = [Some 19999.794, Some 9999.6312, Some 4999.6246]"
  by code_simp

subsection \<open>Only crossing quotes make a candidate\<close>

text \<open>
  Claim C5. For the quotes at positions \<open>i\<close> (buy side) and \<open>j\<close> (sell side) of the fetched
  list: when the sell side's bid is at most the buy side's ask, the pair contributes no
  opportunity; a pair that contributes one has \<open>i \<noteq> j\<close> and a buy-side ask and sell-side
  bid that are both strictly positive with ask < bid. Every opportunity returned by
  \<open>scanForArbitrage\<close> comes from such a pair, whose ask and bid are its buy and sell price.
\<close>

theorem scan_candidates_cross:
  "(nle (bid (pd ! j)) (ask (pd ! i)) \<longrightarrow> scanPair symb cfg clk pd i j = []) \<and>
   (scanPair symb cfg clk pd i j \<noteq> [] \<longrightarrow>
      i \<noteq> j \<and> (\<exists>a b. ask (pd ! i) = Some a \<and> bid (pd ! j) = Some b \<and> 0 < a \<and> 0 < b \<and> a < b)) \<and>
   (opp \<in> set (fst (scanForArbitrage symb exs config env scanner states)) \<longrightarrow>
      (\<exists>i j buy sell.
          i \<noteq> j \<and>
          i < length (fst (fetchPricesFromExchanges symb exs (gateway env) states)) \<and>
          j < length (fst (fetchPricesFromExchanges symb exs (gateway env) states)) \<and>
          buy = fst (fetchPricesFromExchanges symb exs (gateway env) states) ! i \<and>
          sell = fst (fetchPricesFromExchanges symb exs (gateway env) states) ! j \<and>
          ask buy = Some (buyPrice opp) \<and> bid sell = Some (sellPrice opp) \<and>
          buyExchange opp = exchange buy \<and> sellExchange opp = exchange sell \<and>
          0 < buyPrice opp \<and> buyPrice opp < sellPrice opp))"
proof (intro conjI impI)
  assume "nle (bid (pd ! j)) (ask (pd ! i))"
  then have "\<not> quotesCross (pd ! i) (pd ! j)"
    by (auto simp: quotesCross_def nle_def split: option.splits)
  then show "scanPair symb cfg clk pd i j = []"
    by (simp add: scanPair_def Let_def)
next
  assume ne: "scanPair symb cfg clk pd i j \<noteq> []"
  then show "i \<noteq> j" by (auto simp: scanPair_def)
  from ne have "quotesCross (pd ! i) (pd ! j)"
    by (auto simp: scanPair_def Let_def split: if_splits)
  then show "\<exists>a b. ask (pd ! i) = Some a \<and> bid (pd ! j) = Some b \<and> 0 < a \<and> 0 < b \<and> a < b"
    by (auto simp: quotesCross_def split: option.splits)
next
  define quotes where "quotes = fst (fetchPricesFromExchanges symb exs (gateway env) states)"
  assume "opp \<in> set (fst (scanForArbitrage symb exs config env scanner states))"
  from scanForArbitrage_member[OF this] obtain i j where
    ij: "i < length quotes" "j < length quotes"
    and m: "opp \<in> set (scanPair symb (mergeConfig defaultConfig config) (clock env) quotes i j)"
    unfolding quotes_def by blast
  from m have ne: "i \<noteq> j" and q: "quotesCross (quotes ! i) (quotes ! j)"
    and a: "analyzeOpportunity symb (quotes ! i) (quotes ! j) (mergeConfig defaultConfig config)
              (clock env i j) = Some opp"
    and t: "meetsThreshold opp (mergeConfig defaultConfig config)"
    by (simp_all add: scanPair_member)
  from analyzeOpportunity_Some[OF a t] obtain a b where
    ab: "ask (quotes ! i) = Some a" "bid (quotes ! j) = Some b" "buyPrice opp = a" "sellPrice opp = b"
        "buyExchange opp = exchange (quotes ! i)" "sellExchange opp = exchange (quotes ! j)"
    by auto
  from q ab have "0 < a" "a < b" by (auto simp: quotesCross_def)
  with ne ij ab show "\<exists>i j buy sell.
          i \<noteq> j \<and>
          i < length (fst (fetchPricesFromExchanges symb exs (gateway env) states)) \<and>
          j < length (fst (fetchPricesFromExchanges symb exs (gateway env) states)) \<and>
          buy = fst (fetchPricesFromExchanges symb exs (gateway env) states) ! i \<and>
          sell = fst (fetchPricesFromExchanges symb exs (gateway env) states) ! j \<and>
          ask buy = Some (buyPrice opp) \<and> bid sell = Some (sellPrice opp) \<and>
          buyExchange opp = exchange buy \<and> sellExchange opp = exchange sell \<and>
          0 < buyPrice opp \<and> buyPrice opp < sellPrice opp"
    unfolding quotes_def[symmetric] by auto
qed

subsection \<open>Ranges of the scores\<close>

lemma clamp_1_10: "1 \<le> max 1 (min 10 (x::real)) \<and> max 1 (min 10 x) \<le> 10"
  by simp

lemma clamp_0_100: "0 \<le> max 0 (min 100 (x::real)) \<and> max 0 (min 100 x) \<le> 100"
  by simp

lemma calculateRiskScore_range:
  "1 \<le> calculateRiskScore b s p w \<and> calculateRiskScore b s p w \<le> 10"
  unfolding calculateRiskScore_def Let_def by (rule clamp_1_10)

lemma calculateConfidence_range:
  "0 \<le> calculateConfidence p w k x y \<and> calculateConfidence p w k x y \<le> 100"
  unfolding calculateConfidence_def Let_def by (rule clamp_0_100)

text \<open>
  Claim C6. For all arguments \<open>calculateRiskScore\<close> returns a value in [1, 10] and
  \<open>calculateConfidence\<close> a value in [0, 100]; so the \<open>riskScore\<close> and \<open>confidence\<close> of
  every opportunity returned by \<open>scanForArbitrage\<close> lie in those ranges.
\<close>

theorem scores_in_range:
  "1 \<le> calculateRiskScore buy sell spreadPct v \<and> calculateRiskScore buy sell spreadPct v \<le> 10 \<and>
   0 \<le> calculateConfidence spreadPct v risk bc sc \<and> calculateConfidence spreadPct v risk bc sc \<le> 100 \<and>
   (opp \<in> set (fst (scanForArbitrage symb exs config env scanner states)) \<longrightarrow>
      1 \<le> riskScore opp \<and> riskScore opp \<le> 10 \<and> 0 \<le> confidence opp \<and> confidence opp \<le> 100)"
proof -
  have "1 \<le> riskScore opp \<and> riskScore opp \<le> 10 \<and> 0 \<le> confidence opp \<and> confidence opp \<le> 100"
    if "opp \<in> set (fst (scanForArbitrage symb exs config env scanner states))"
  proof -
    from scanForArbitrage_member[OF that] obtain pd i j where
      m: "opp \<in> set (scanPair symb (mergeConfig defaultConfig config) (clock env) pd i j)"
      by blast
    then have a: "analyzeOpportunity symb (pd ! i) (pd ! j) (mergeConfig defaultConfig config)
                    (clock env i j) = Some opp"
      and t: "meetsThreshold opp (mergeConfig defaultConfig config)"
      by (simp_all add: scanPair_member)
    from analyzeOpportunity_Some[OF a t] obtain vb vs where
      "riskScore opp = calculateRiskScore (pd ! i) (pd ! j) (spreadPercent opp) (min vb vs)"
      "confidence opp = calculateConfidence (spreadPercent opp) (min vb vs) (riskScore opp)
          (fromCache (pd ! i)) (fromCache (pd ! j))"
      by blast
    then show ?thesis
      using calculateRiskScore_range[of "pd ! i" "pd ! j" "spreadPercent opp" "min vb vs"]
        calculateConfidence_range[of "spreadPercent opp" "min vb vs" "riskScore opp"
          "fromCache (pd ! i)" "fromCache (pd ! j)"]
      by simp
  qed
  then show ?thesis
    using calculateRiskScore_range[of buy sell spreadPct v]
      calculateConfidence_range[of spreadPct v risk bc sc]
    by blast
qed

subsection \<open>Thresholds and order of the result\<close>

text \<open>
  The thresholds of the merged configuration in the caller's terms: what the caller passed,
  or the default (0.1 %, 7, 100) for a key the caller left out.
\<close>

lemma mergeConfig_thresholds:
  "minProfitPercent (mergeConfig defaultConfig config) =
     (case minProfitPercent_opt config of Some p \<Rightarrow> p | None \<Rightarrow> 0.1)"
  "maxRiskScore (mergeConfig defaultConfig config) =
     (case maxRiskScore_opt config of Some m \<Rightarrow> m | None \<Rightarrow> 7)"
  "minVolume (mergeConfig defaultConfig config) =
     (case minVolume_opt config of Some m \<Rightarrow> m | None \<Rightarrow> 100)"
  by (simp_all add: mergeConfig_def defaultConfig_def split: option.splits)

text \<open>
  Claim C8. Every opportunity in the list returned by \<open>scanForArbitrage\<close> meets the three
  thresholds of the caller, that is of the \<open>config\<close> argument of the call: its
  netProfitPercent is at least the \<open>minProfitPercent\<close> passed, its riskScore at most the
  \<open>maxRiskScore\<close> passed, and its available volume at least the \<open>minVolume\<close> passed, with
  the default (0.1, 7, 100) standing for a threshold the caller left out; and the list is
  in descending order of the absolute \<open>netProfit\<close>.
\<close>

theorem scan_filtered_sorted:
  "(opp \<in> set (fst (scanForArbitrage symb exs config env scanner states)) \<longrightarrow>
      nge (netProfitPercent opp)
        (Some (case minProfitPercent_opt config of Some p \<Rightarrow> p | None \<Rightarrow> 0.1)) \<and>
      riskScore opp \<le> (case maxRiskScore_opt config of Some m \<Rightarrow> m | None \<Rightarrow> 7) \<and>
      available (volume opp) \<ge> (case minVolume_opt config of Some m \<Rightarrow> m | None \<Rightarrow> 100)) \<and>
   sorted_wrt netProfitDescending (fst (scanForArbitrage symb exs config env scanner states))"
proof (intro conjI impI)
  assume "opp \<in> set (fst (scanForArbitrage symb exs config env scanner states))"
  from scanForArbitrage_member[OF this] obtain pd i j where
    "opp \<in> set (scanPair symb (mergeConfig defaultConfig config) (clock env) pd i j)"
    by blast
  then have "meetsThreshold opp (mergeConfig defaultConfig config)"
    by (simp add: scanPair_member)
  then have m: "nge (netProfitPercent opp) (Some (minProfitPercent (mergeConfig defaultConfig config)))"
    "riskScore opp \<le> maxRiskScore (mergeConfig defaultConfig config)"
    "available (volume opp) \<ge> minVolume (mergeConfig defaultConfig config)"
    by (simp_all add: meetsThreshold_def)
  from m(1) show "nge (netProfitPercent opp)
        (Some (case minProfitPercent_opt config of Some p \<Rightarrow> p | None \<Rightarrow> 0.1))"
    by (simp only: mergeConfig_thresholds)
  from m(2) show "riskScore opp \<le> (case maxRiskScore_opt config of Some m \<Rightarrow> m | None \<Rightarrow> 7)"
    by (simp only: mergeConfig_thresholds)
  from m(3) show "available (volume opp) \<ge> (case minVolume_opt config of Some m \<Rightarrow> m | None \<Rightarrow> 100)"
    by (simp only: mergeConfig_thresholds)
next
  define cfg where "cfg = mergeConfig defaultConfig config"
  define pd where "pd = fst (fetchPricesFromExchanges symb exs (gateway env) states)"
  have "\<forall>y\<in>set (scanPairs symb cfg (clock env) pd). netProfit y \<noteq> None"
  proof
    fix y assume "y \<in> set (scanPairs symb cfg (clock env) pd)"
    then obtain i j where "y \<in> set (scanPair symb cfg (clock env) pd i j)"
      by (auto simp: scanPairs_member)
    then have "analyzeOpportunity symb (pd ! i) (pd ! j) cfg (clock env i j) = Some y"
      "meetsThreshold y cfg"
      by (simp_all add: scanPair_member)
    from analyzeOpportunity_Some[OF this] show "netProfit y \<noteq> None" by auto
  qed
  from sorted_sortBy[OF this]
  show "sorted_wrt netProfitDescending (fst (scanForArbitrage symb exs config env scanner states))"
    by (simp add: scanForArbitrage_result cfg_def pd_def)
qed

subsection \<open>The scanner theorems on the example scan\<close>

theorem scan_candidates_cross_witness:
  "nle (bid (exampleQuotes ! 0)) (ask (exampleQuotes ! 1)) \<and>
   scanPair ''BTC/USDT'' exampleMerged exampleClock exampleQuotes 1 0 = [] \<and>
   scanPair ''BTC/USDT'' exampleMerged exampleClock exampleQuotes 0 2 \<noteq> [] \<and>
   (0::nat) \<noteq> 2 \<and>
   (\<exists>a b. ask (exampleQuotes ! 0) = Some a \<and> bid (exampleQuotes ! 2) = Some b \<and>
          0 < a \<and> 0 < b \<and> a < b) \<and>
   exampleScan ! 0 \<in> set exampleScan \<and>
   0 < buyPrice (exampleScan ! 0) \<and> buyPrice (exampleScan ! 0) < sellPrice (exampleScan ! 0)"
proof -
  have h1: "nle (bid (exampleQuotes ! 0)) (ask (exampleQuotes ! 1))"
    by code_simp
  have h2: "scanPair ''BTC/USDT'' exampleMerged exampleClock exampleQuotes 0 2 \<noteq> []"
    by code_simp
  have h3: "exampleScan ! 0 \<in> set exampleScan"
    by code_simp
  then have h3': "exampleScan ! 0 \<in> set (fst (scanForArbitrage ''BTC/USDT''
               [''binance'', ''kraken'', ''okx''] exampleConfig exampleEnv idleScanner Map.empty))"
    by (simp add: exampleScan_def)
  from scan_candidates_cross[where pd = exampleQuotes and i = 1 and j = 0
      and symb = "''BTC/USDT''" and cfg = exampleMerged and clk = exampleClock] h1
  have c1: "scanPair ''BTC/USDT'' exampleMerged exampleClock exampleQuotes 1 0 = []"
    by blast
  from scan_candidates_cross[where pd = exampleQuotes and i = 0 and j = 2
      and symb = "''BTC/USDT''" and cfg = exampleMerged and clk = exampleClock] h2
  have c2: "(0::nat) \<noteq> 2 \<and> (\<exists>a b. ask (exampleQuotes ! 0) = Some a \<and> bid (exampleQuotes ! 2) = Some b \<and>
          0 < a \<and> 0 < b \<and> a < b)"
    by blast
  from scan_candidates_cross[where opp = "exampleScan ! 0" and symb = "''BTC/USDT''"
      and exs = "[''binance'', ''kraken'', ''okx'']" and config = exampleConfig
      and env = exampleEnv and scanner = idleScanner and states = Map.empty] h3'
  have c3: "0 < buyPrice (exampleScan ! 0) \<and> buyPrice (exampleScan ! 0) < sellPrice (exampleScan ! 0)"
    by blast
  from h1 h2 h3 c1 c2 c3 show ?thesis by blast
qed

theorem scores_in_range_witness:
  "exampleScan ! 2 \<in> set exampleScan \<and>
   1 \<le> riskScore (exampleScan ! 2) \<and> riskScore (exampleScan ! 2) \<le> 10 \<and>
   0 \<le> confidence (exampleScan ! 2) \<and> confidence (exampleScan ! 2) \<le> 100"
proof -
  have m: "exampleScan ! 2 \<in> set exampleScan"
    by code_simp
  then have "exampleScan ! 2 \<in> set (fst (scanForArbitrage ''BTC/USDT''
               [''binance'', ''kraken'', ''okx''] exampleConfig exampleEnv idleScanner Map.empty))"
    by (simp add: exampleScan_def)
  with scores_in_range[where opp = "exampleScan ! 2" and symb = "''BTC/USDT''"
      and exs = "[''binance'', ''kraken'', ''okx'']" and config = exampleConfig
      and env = exampleEnv and scanner = idleScanner and states = Map.empty] m
  show ?thesis by blast
qed

theorem scan_filtered_sorted_witness:
  "hd strictScan \<in> set strictScan \<and>
   minProfitPercent_opt strictConfig = Some 2 \<and>
   maxRiskScore_opt strictConfig = Some 6 \<and>
   minVolume_opt strictConfig = Some 50 \<and>
   nge (netProfitPercent (hd strictScan)) (Some 2) \<and>
   riskScore (hd strictScan) \<le> 6 \<and>
   available (volume (hd strictScan)) \<ge> 50 \<and>
   sorted_wrt netProfitDescending strictScan \<and>
   length strictScan = 1 \<and>
   last exampleScan \<in> set exampleScan \<and>
   minProfitPercent_opt exampleConfig = None \<and>
   maxRiskScore_opt exampleConfig = None \<and>
   minVolume_opt exampleConfig = None \<and>
   nge (netProfitPercent (last exampleScan)) (Some 0.1) \<and>
   riskScore (last exampleScan) \<le> 7 \<and>
   available (volume (last exampleScan)) \<ge> 100 \<and>
   sorted_wrt netProfitDescending exampleScan \<and>
   length exampleScan = 3"
proof -
  have m: "hd strictScan \<in> set strictScan"
    by code_simp
  have c: "minProfitPercent_opt strictConfig = Some 2" "maxRiskScore_opt strictConfig = Some 6"
    "minVolume_opt strictConfig = Some 50"
    by (simp_all add: strictConfig_def)
  have n: "length strictScan = 1"
    by code_simp
  have m': "last exampleScan \<in> set exampleScan"
    by code_simp
  have c': "minProfitPercent_opt exampleConfig = None" "maxRiskScore_opt exampleConfig = None"
    "minVolume_opt exampleConfig = None"
    by (simp_all add: exampleConfig_def)
  have n': "length exampleScan = 3"
    by code_simp
  from scan_filtered_sorted[where opp = "hd strictScan" and symb = "''BTC/USDT''"
      and exs = "[''binance'', ''kraken'', ''okx'']" and config = strictConfig
      and env = exampleEnv and scanner = idleScanner and states = Map.empty] m
  have a: "nge (netProfitPercent (hd strictScan)) (Some 2) \<and>
   riskScore (hd strictScan) \<le> 6 \<and>
   available (volume (hd strictScan)) \<ge> 50 \<and>
   sorted_wrt netProfitDescending strictScan"
    by (simp add: strictScan_def[symmetric] c)
  from scan_filtered_sorted[where opp = "last exampleScan" and symb = "''BTC/USDT''"
      and exs = "[''binance'', ''kraken'', ''okx'']" and config = exampleConfig
      and env = exampleEnv and scanner = idleScanner and states = Map.empty] m'
  have b: "nge (netProfitPercent (last exampleScan)) (Some 0.1) \<and>
   riskScore (last exampleScan) \<le> 7 \<and>
   available (volume (last exampleScan)) \<ge> 100 \<and>
   sorted_wrt netProfitDescending exampleScan"
    by (simp add: exampleScan_def[symmetric] c')
  from m c n m' c' n' a b show ?thesis by blast
qed

section \<open>Properties of the fee model\<close>

text \<open>
  For a venue id whose lower-case form is not the name of a property that the fee table
  inherits, \<open>getExchangeFees\<close> is the lookup with default, and \<open>calculateArbitrageFees\<close>
  charges taker rates on both sides, the buy venue's withdrawal fee exactly when the two
  ids differ and withdrawal fees are included, and their sum as total.
\<close>

lemma getExchangeFees_feesFor:
  "toLowerCase venueId \<notin> set Object_prototype \<Longrightarrow> getExchangeFees venueId = Profile (feesFor venueId)"
  by (simp add: getExchangeFees_def EXCHANGE_FEES_get_def feesFor_def split: option.splits)

lemma feesFor_unknown:
  "map_of EXCHANGE_FEES (toLowerCase venueId) = None \<Longrightarrow> feesFor venueId = DEFAULT_FEES"
  by (simp add: feesFor_def)

lemma calculateArbitrageFees_feesFor:
  assumes "toLowerCase buy \<notin> set Object_prototype" "toLowerCase sell \<notin> set Object_prototype"
  shows "calculateArbitrageFees buy sell buyPx sellPx includeWithdrawal =
           \<lparr>buyFee = Some (buyPx * taker (feesFor buy)),
            sellFee = Some (sellPx * taker (feesFor sell)),
            withdrawalFee =
              Some (if includeWithdrawal \<and> buy \<noteq> sell then withdrawal (feesFor buy) else 0),
            totalFees =
              Some (buyPx * taker (feesFor buy) + sellPx * taker (feesFor sell) +
                    (if includeWithdrawal \<and> buy \<noteq> sell then withdrawal (feesFor buy) else 0))\<rparr>"
  using assms
  by (simp add: calculateArbitrageFees_def calculateTradingFee_def getWithdrawalFee_def
      getExchangeFees_feesFor Let_def ntimes_def nplus_def lift2_def)

text \<open>
  Claim C7 fails on the code for the venue id \<open>constructor\<close> (and \<open>__proto__\<close>). It is not a
  key of the fee table, yet \<open>EXCHANGE_FEES[''constructor'']\<close> is the inherited, truthy
  \<open>Object\<close> function, so \<open>|| DEFAULT_FEES\<close> is not taken: the lookup does not resolve to the
  default profile, the buy fee \<open>price * undefined\<close> is \<open>NaN\<close>, the withdrawal fee is
  \<open>undefined\<close> and the total is \<open>NaN\<close>; any other unlisted id, such as \<open>newvenue\<close>, gets
  the default profile's 0.2, 20 and the total 20.301.
\<close>

theorem calculateArbitrageFees_inherited_key:
  "map_of EXCHANGE_FEES (toLowerCase ''constructor'') = None \<and>
   getExchangeFees ''constructor'' = Inherited ''constructor'' \<and>
   getExchangeFees ''constructor'' \<noteq> Profile DEFAULT_FEES \<and>
   calculateArbitrageFees ''constructor'' ''binance'' 100 101 True =
     \<lparr>buyFee = None, sellFee = Some 0.101, withdrawalFee = None, totalFees = None\<rparr> \<and>
   calculateArbitrageFees ''newvenue'' ''binance'' 100 101 True =
     \<lparr>buyFee = Some 0.2, sellFee = Some 0.101, withdrawalFee = Some 20,
      totalFees = Some 20.301\<rparr>"
  by code_simp

section \<open>Properties of the continuous scan\<close>

lemma scanForArbitrage_running [simp]:
  "scannerRunning (fst (snd (scanForArbitrage symb exs config env scanner states))) =
   scannerRunning scanner"
  by (simp add: scanForArbitrage_def Let_def split: prod.splits)

lemma runPass_running [simp]:
  "scannerRunning (fst (runPass cfg pass scanner states)) = scannerRunning scanner"
proof -
  have "scannerRunning (fst (foldl (\<lambda>(sc, st) (k, symb).
              (case scanForArbitrage symb (exchanges cfg) (toPartial cfg) (scanEnv pass k) sc st of
                 (found, sc', st') \<Rightarrow> (sc', st'))) acc ks)) = scannerRunning (fst acc)"
    for acc ks
  proof (induction ks arbitrary: acc)
    case Nil
    then show ?case by simp
  next
    case (Cons x ks)
    obtain sc st where acc: "acc = (sc, st)" by (cases acc)
    obtain k symb where x: "x = (k, symb)" by (cases x)
    obtain found sc' st' where
      s: "scanForArbitrage symb (exchanges cfg) (toPartial cfg) (scanEnv pass k) sc st =
            (found, sc', st')"
      by (cases "scanForArbitrage symb (exchanges cfg) (toPartial cfg) (scanEnv pass k) sc st")
    have "scannerRunning sc' = scannerRunning sc"
      using scanForArbitrage_running[of symb "exchanges cfg" "toPartial cfg" "scanEnv pass k" sc st]
      by (simp add: s)
    then show ?case using Cons.IH[of "(sc', st')"] by (simp add: acc x s)
  qed
  then show ?thesis by (simp add: runPass_def)
qed

text \<open>A call made while the scanner is idle returns once a pass has seen the stop request.\<close>

lemma startContinuousScanning_stops:
  assumes "\<not> scannerRunning scanner" "stopRequested pass"
  shows "fst (startContinuousScanning config (pass # passes) scanner states) = Some (Inr ()) \<and>
         \<not> scannerRunning (fst (snd (startContinuousScanning config (pass # passes) scanner states)))"
proof -
  define cfg where "cfg = mergeConfig defaultConfig config"
  obtain scanner' states' where
    p: "runPass cfg pass (scanner\<lparr>scannerRunning := True\<rparr>) states = (scanner', states')"
    by (cases "runPass cfg pass (scanner\<lparr>scannerRunning := True\<rparr>) states")
  have stopped: "scanLoop cfg passes (stopScanning scanner') states' =
                   (True, stopScanning scanner', states')"
    by (cases passes) (simp_all add: stopScanning_def)
  show ?thesis
    using assms p stopped
    by (simp add: startContinuousScanning_def Let_def cfg_def[symmetric] stopScanning_def)
qed


text \<open>
  Claim C10. Calling \<open>startContinuousScanning\<close> while the scanner is running raises the
  error \<open>Scanner is already running\<close>; no scan is made, and the scanner (running flag,
  stored opportunities, last-scan time) and the limiter's state are unchanged.
\<close>

theorem startContinuousScanning_running:
  "scannerRunning scanner \<Longrightarrow>
   startContinuousScanning config passes scanner states =
     (Some (Inl \<lparr>code = None, message = Some ''Scanner is already running''\<rparr>), scanner, states)"
  by (simp add: startContinuousScanning_def)

theorem startContinuousScanning_running_witness:
  "scannerRunning runningScanner \<and>
   startContinuousScanning exampleConfig [examplePass] runningScanner Map.empty =
     (Some (Inl \<lparr>code = None, message = Some ''Scanner is already running''\<rparr>),
      runningScanner, Map.empty)"
proof -
  have h: "scannerRunning runningScanner"
    by (simp add: runningScanner_def)
  from startContinuousScanning_running[OF h, of exampleConfig "[examplePass]" Map.empty] h
  show ?thesis by simp
qed

section \<open>Properties of the rate limiter\<close>

subsection \<open>One activation of \<open>executeWithBackoff\<close>\<close>

lemma entryRetryCount_resetState [simp]:
  "entryRetryCount (resetState t ex states) ex = 0"
  by (simp add: entryRetryCount_def resetState_def split: option.splits)

lemma entryRetryCount_recordFailure [simp]:
  "entryRetryCount (recordFailure t1 t2 ex states) ex = entryRetryCount states ex + 1"
  by (simp add: entryRetryCount_def recordFailure_def getOrCreateState_def Let_def split: option.splits)

lemma entryDelay_zero: "entryRetryCount states ex = 0 \<Longrightarrow> entryDelay states ex rnd = []"
  by (simp add: entryDelay_def)

lemma activation_succeeded:
  assumes "outcome (oper n) = Inr r"
  shows "executeWithBackoff ex oper ctx n states =
           (Inr r, entryDelay states ex (random (oper n)) @ [Invoke n],
            resetState (settled (oper n)) ex
              (snd (getOrCreateState (entered (oper n)) ex states)))"
  using assms by (subst executeWithBackoff.simps) (simp add: Let_def)

lemma activation_exhausted:
  assumes "outcome (oper n) = Inl e" "maxRetries \<le> entryRetryCount states ex"
  shows "executeWithBackoff ex oper ctx n states =
           (Inl (maxRetriesError ex ctx e),
            entryDelay states ex (random (oper n)) @ [Invoke n],
            resetState (settled (oper n)) ex
              (recordFailure (entered (oper n)) (settled (oper n)) ex states))"
  using assms by (subst executeWithBackoff.simps) (simp add: Let_def recordFailure_def)

lemma activation_not_retried:
  assumes "outcome (oper n) = Inl e" "entryRetryCount states ex < maxRetries"
    and "isNonRetryableError e"
  shows "executeWithBackoff ex oper ctx n states =
           (Inl e, entryDelay states ex (random (oper n)) @ [Invoke n],
            resetState (settled (oper n)) ex
              (recordFailure (entered (oper n)) (settled (oper n)) ex states))"
  using assms by (subst executeWithBackoff.simps) (simp add: Let_def recordFailure_def)

lemma activation_retried:
  assumes "outcome (oper n) = Inl e" "entryRetryCount states ex < maxRetries"
    and "\<not> isNonRetryableError e"
  shows "executeWithBackoff ex oper ctx n states =
           (case executeWithBackoff ex oper ctx (n + 1)
                   (recordFailure (entered (oper n)) (settled (oper n)) ex states) of
              (r, events, states') \<Rightarrow>
                (r, (entryDelay states ex (random (oper n)) @ [Invoke n]) @ events, states'))"
  using assms by (subst executeWithBackoff.simps) (simp add: Let_def recordFailure_def)

lemma invocations_append [simp]: "invocations (xs @ ys) = invocations xs @ invocations ys"
  by (induction xs rule: invocations.induct) auto

lemma invocations_entryDelay [simp]: "invocations (entryDelay states ex rnd) = []"
  by (simp add: entryDelay_def Let_def)

lemma recordFailure_reset:
  "\<exists>s. resetState t ex (recordFailure t1 t2 ex states) ex = Some s \<and>
       retryCount s = 0 \<and> consecutiveErrors s = 0"
  by (simp add: resetState_def recordFailure_def Let_def)

lemma executeWithBackoff_retries:
  assumes "\<forall>i<k. \<exists>e. outcome (oper (n + i)) = Inl e \<and> \<not> isNonRetryableError e"
    and "entryRetryCount states ex + k \<le> maxRetries"
  shows "\<exists>states' prefix.
           entryRetryCount states' ex = entryRetryCount states ex + k \<and>
           invocations prefix = [n..<n + k] \<and>
           executeWithBackoff ex oper ctx n states =
             (case executeWithBackoff ex oper ctx (n + k) states' of
                (r, events, final) \<Rightarrow> (r, prefix @ events, final))"
  using assms
proof (induction k arbitrary: n states)
  case 0
  have "executeWithBackoff ex oper ctx n states =
          (case executeWithBackoff ex oper ctx (n + 0) states of
             (r, events, final) \<Rightarrow> (r, [] @ events, final))"
    by (simp split: prod.splits)
  then show ?case by (intro exI[of _ states] exI[of _ "[]"]) simp
next
  case (Suc k)
  from Suc.prems(1) obtain e where e: "outcome (oper n) = Inl e" "\<not> isNonRetryableError e"
    by fastforce
  define states1 where
    "states1 = recordFailure (entered (oper n)) (settled (oper n)) ex states"
  define before where "before = entryDelay states ex (random (oper n)) @ [Invoke n]"
  have rc: "entryRetryCount states ex < maxRetries" using Suc.prems(2) by simp
  have step: "executeWithBackoff ex oper ctx n states =
                (case executeWithBackoff ex oper ctx (n + 1) states1 of
                   (r, events, final) \<Rightarrow> (r, before @ events, final))"
    unfolding states1_def before_def
    using activation_retried[where oper = oper and n = n and e = e and states = states
        and ex = ex and ctx = ctx] e rc
    by blast
  have "\<forall>i<k. \<exists>e. outcome (oper (n + 1 + i)) = Inl e \<and> \<not> isNonRetryableError e"
  proof (intro allI impI)
    fix i assume "i < k"
    then have "Suc i < Suc k" by simp
    with Suc.prems(1) have "\<exists>e. outcome (oper (n + Suc i)) = Inl e \<and> \<not> isNonRetryableError e"
      by blast
    then show "\<exists>e. outcome (oper (n + 1 + i)) = Inl e \<and> \<not> isNonRetryableError e" by simp
  qed
  moreover have "entryRetryCount states1 ex + k \<le> maxRetries"
    using Suc.prems(2) by (simp add: states1_def)
  ultimately obtain states' prefix where
    ih: "entryRetryCount states' ex = entryRetryCount states1 ex + k"
        "invocations prefix = [n + 1..<n + 1 + k]"
        "executeWithBackoff ex oper ctx (n + 1) states1 =
           (case executeWithBackoff ex oper ctx (n + 1 + k) states' of
              (r, events, final) \<Rightarrow> (r, prefix @ events, final))"
    using Suc.IH[of "n + 1" states1] by blast
  have "entryRetryCount states' ex = entryRetryCount states ex + Suc k"
    using ih(1) by (simp add: states1_def)
  moreover have "invocations (before @ prefix) = [n..<n + Suc k]"
    using ih(2) by (simp add: before_def upt_conv_Cons)
  moreover have "executeWithBackoff ex oper ctx n states =
             (case executeWithBackoff ex oper ctx (n + Suc k) states' of
                (r, events, final) \<Rightarrow> (r, (before @ prefix) @ events, final))"
    using step ih(3) by (simp split: prod.splits)
  ultimately show ?case by blast
qed

lemma executeWithBackoff_events_start:
  "\<exists>events. fst (snd (executeWithBackoff ex oper ctx n states)) =
             entryDelay states ex (random (oper n)) @ Invoke n # events"
proof (cases "outcome (oper n)")
  case (Inr r)
  then show ?thesis by (simp add: activation_succeeded)
next
  case (Inl e)
  show ?thesis
  proof (cases "entryRetryCount states ex < maxRetries")
    case False
    then show ?thesis using Inl by (simp add: activation_exhausted)
  next
    case True
    show ?thesis
    proof (cases "isNonRetryableError e")
      case True
      then show ?thesis using Inl \<open>entryRetryCount states ex < maxRetries\<close>
        by (simp add: activation_not_retried)
    next
      case False
      then show ?thesis using Inl True
        by (simp add: activation_retried split: prod.splits)
    qed
  qed
qed


lemma executeWithBackoff_persistent_failure:
  assumes "\<forall>k. isl (outcome (oper k))"
  shows "isl (fst (executeWithBackoff ex oper ctx n states))"
proof (induction "maxRetries - entryRetryCount states ex" arbitrary: n states)
  case 0
  from assms obtain e where e: "outcome (oper n) = Inl e"
    by (metis isl_def)
  from 0 have "maxRetries \<le> entryRetryCount states ex" by simp
  then show ?case using e
      activation_exhausted[where oper = oper and n = n and e = e and states = states
        and ex = ex and ctx = ctx]
    by simp
next
  case (Suc d)
  from assms obtain e where e: "outcome (oper n) = Inl e"
    by (metis isl_def)
  from Suc(2) have room: "entryRetryCount states ex < maxRetries" by simp
  show ?case
  proof (cases "isNonRetryableError e")
    case True
    then show ?thesis using e room
        activation_not_retried[where oper = oper and n = n and e = e and states = states
          and ex = ex and ctx = ctx]
      by simp
  next
    case False
    define states1 where "states1 = recordFailure (entered (oper n)) (settled (oper n)) ex states"
    have "d = maxRetries - entryRetryCount states1 ex"
      using Suc(2) by (simp add: states1_def)
    from Suc(1)[OF this] have "isl (fst (executeWithBackoff ex oper ctx (n + 1) states1))" .
    then show ?thesis using e room False
        activation_retried[where oper = oper and n = n and e = e and states = states
          and ex = ex and ctx = ctx]
      by (simp add: states1_def split: prod.splits)
  qed
qed

lemma executeWithBackoff_first_success:
  "outcome (oper 0) = Inr r \<Longrightarrow> fst (executeWithBackoff ex oper ctx 0 states) = Inr r"
  using activation_succeeded[where oper = oper and n = 0 and r = r and states = states
          and ex = ex and ctx = ctx]
  by simp

lemma executeWithBackoff_eventual_success:
  assumes "entryRetryCount states ex = 0" and "k \<le> 5"
    and "\<forall>i<k. \<exists>e'. outcome (oper i) = Inl e' \<and> \<not> isNonRetryableError e'"
    and "outcome (oper k) = Inr r"
  shows "fst (executeWithBackoff ex oper ctx 0 states) = Inr r \<and>
         invocations (fst (snd (executeWithBackoff ex oper ctx 0 states))) = [0..<Suc k] \<and>
         entryRetryCount (snd (snd (executeWithBackoff ex oper ctx 0 states))) ex = 0"
proof -
  have "\<forall>i<k. \<exists>e'. outcome (oper (0 + i)) = Inl e' \<and> \<not> isNonRetryableError e'"
    using assms(3) by simp
  moreover have "entryRetryCount states ex + k \<le> maxRetries"
    using assms(1,2) by (simp add: maxRetries_def)
  ultimately obtain states' prefix where
    c: "invocations prefix = [0..<0 + k]"
       "executeWithBackoff ex oper ctx 0 states =
          (case executeWithBackoff ex oper ctx (0 + k) states' of
             (r, events, final) \<Rightarrow> (r, prefix @ events, final))"
    using executeWithBackoff_retries[of k oper 0 states ex ctx] by blast
  have run: "executeWithBackoff ex oper ctx 0 states =
          (Inr r, prefix @ entryDelay states' ex (random (oper k)) @ [Invoke k],
           resetState (settled (oper k)) ex (snd (getOrCreateState (entered (oper k)) ex states')))"
    using c(2) assms(4)
      activation_succeeded[where oper = oper and n = k and r = r and states = states'
        and ex = ex and ctx = ctx]
    by simp
  show ?thesis
    using c(1) by (simp add: run)
qed


subsection \<open>Exhausting the retries\<close>

text \<open>
  Claim C3, as amended. \<open>maxRetries\<close> is 5, and the check is \<open>retryCount > maxRetries\<close> after
  the increment. If, for a venue whose retry count is zero, the operation fails on six
  consecutive attempts (the first attempt and five retries), the first five with retryable
  errors, then \<open>executeWithBackoff\<close> makes exactly those six attempts and raises one error,
  whose message names the limit, the venue, the context and the message of the last
  underlying error; the venue's retry count is then zero, and the next call for the venue
  starts with the invocation of its operation, not with a sleep.
\<close>

theorem executeWithBackoff_max_retries:
  assumes "entryRetryCount states ex = 0"
    and "\<forall>i<5. \<exists>e'. outcome (oper i) = Inl e' \<and> \<not> isNonRetryableError e'"
    and "outcome (oper 5) = Inl e"
  shows "fst (executeWithBackoff ex oper ctx 0 states) =
           Inl \<lparr>code = None,
                message = Some (''Max retries (5) exceeded for '' @ ex @ contextText ctx @
                                ''. Last error: '' @ messageText e)\<rparr> \<and>
         invocations (fst (snd (executeWithBackoff ex oper ctx 0 states))) = [0, 1, 2, 3, 4, 5] \<and>
         entryRetryCount (snd (snd (executeWithBackoff ex oper ctx 0 states))) ex = 0 \<and>
         (\<exists>events. fst (snd (executeWithBackoff ex oper2 ctx2 0
                               (snd (snd (executeWithBackoff ex oper ctx 0 states))))) =
                    Invoke 0 # events)"
proof -
  have "\<forall>i<5. \<exists>e'. outcome (oper (0 + i)) = Inl e' \<and> \<not> isNonRetryableError e'"
    using assms(2) by simp
  moreover have "entryRetryCount states ex + 5 \<le> maxRetries"
    using assms(1) by (simp add: maxRetries_def)
  ultimately obtain states' prefix where
    c: "entryRetryCount states' ex = entryRetryCount states ex + 5"
       "invocations prefix = [0..<0 + 5]"
       "executeWithBackoff ex oper ctx 0 states =
          (case executeWithBackoff ex oper ctx (0 + 5) states' of
             (r, events, final) \<Rightarrow> (r, prefix @ events, final))"
    using executeWithBackoff_retries[of 5 oper 0 states ex ctx] by blast
  have full: "maxRetries \<le> entryRetryCount states' ex"
    using c(1) assms(1) by (simp add: maxRetries_def)
  have "[0..<0 + 5] = [0, 1, 2, 3, 4::nat]"
    by (simp add: upt_conv_Cons)
  with c(2) have inv: "invocations prefix = [0, 1, 2, 3, 4]" by simp
  have five: "showNat 5 = ''5''"
    by (simp add: showNat.simps digitChar_def)
  have run: "executeWithBackoff ex oper ctx 0 states =
          (Inl (maxRetriesError ex ctx e),
           prefix @ entryDelay states' ex (random (oper 5)) @ [Invoke 5],
           resetState (settled (oper 5)) ex
             (recordFailure (entered (oper 5)) (settled (oper 5)) ex states'))"
    using c(3) assms(3) full
      activation_exhausted[where oper = oper and n = 5 and e = e and states = states'
        and ex = ex and ctx = ctx]
    by simp
  have next_call: "\<exists>events. fst (snd (executeWithBackoff ex oper2 ctx2 0
        (resetState (settled (oper 5)) ex
             (recordFailure (entered (oper 5)) (settled (oper 5)) ex states')))) = Invoke 0 # events"
    using executeWithBackoff_events_start[of ex oper2 ctx2 0
        "resetState (settled (oper 5)) ex
             (recordFailure (entered (oper 5)) (settled (oper 5)) ex states')"]
    by (simp add: entryDelay_zero)
  show ?thesis
    using next_call by (simp add: run inv maxRetriesError_def maxRetries_def five)
qed


theorem executeWithBackoff_max_retries_witness:
  "entryRetryCount Map.empty ''binance'' = 0 \<and>
   \<not> isNonRetryableError timeoutError \<and>
   outcome (downOperation 5) = Inl timeoutError \<and>
   fst (executeWithBackoff ''binance'' downOperation (Some ''Fetching BTC/USDT ticker'') 0 Map.empty) =
     Inl \<lparr>code = None,
          message = Some (''Max retries (5) exceeded for binance (Fetching BTC/USDT ticker). '' @
                          ''Last error: request timed out'')\<rparr> \<and>
   invocations (fst (snd (executeWithBackoff ''binance'' downOperation
       (Some ''Fetching BTC/USDT ticker'') 0 Map.empty))) = [0, 1, 2, 3, 4, 5] \<and>
   entryRetryCount (snd (snd (executeWithBackoff ''binance'' downOperation
       (Some ''Fetching BTC/USDT ticker'') 0 Map.empty))) ''binance'' = 0"
proof -
  have h1: "entryRetryCount Map.empty ''binance'' = 0"
    by (simp add: entryRetryCount_def)
  have h0: "\<not> isNonRetryableError timeoutError"
    by code_simp
  then have h2: "\<forall>i<5. \<exists>e'. outcome (downOperation i) = Inl e' \<and> \<not> isNonRetryableError e'"
    by (simp add: downOperation_def)
  have h3: "outcome (downOperation 5) = Inl timeoutError"
    by (simp add: downOperation_def)
  from executeWithBackoff_max_retries[where states = Map.empty and ex = "''binance''"
      and oper = downOperation and e = timeoutError
      and ctx = "Some ''Fetching BTC/USDT ticker''" and ?oper2.0 = downOperation and ?ctx2.0 = None,
      OF h1 h2 h3] h1 h0 h3
  show ?thesis
    by (simp add: contextText_def messageText_def timeoutError_def)
qed

text \<open>
  The claim as stated fails: after failures on five consecutive attempts the sixth attempt
  is still made, and when it succeeds the call returns its value and raises nothing.
\<close>

theorem executeWithBackoff_max_retries_counterexample:
  "outcome (flakyOperation 0) = Inl timeoutError \<and> outcome (flakyOperation 1) = Inl timeoutError \<and>
   outcome (flakyOperation 2) = Inl timeoutError \<and> outcome (flakyOperation 3) = Inl timeoutError \<and>
   outcome (flakyOperation 4) = Inl timeoutError \<and>
   fst (executeWithBackoff ''binance'' flakyOperation None 0 Map.empty) = Inr 42 \<and>
   invocations (fst (snd (executeWithBackoff ''binance'' flakyOperation None 0 Map.empty))) =
     [0, 1, 2, 3, 4, 5]"
proof -
  have h1: "entryRetryCount Map.empty ''binance'' = 0"
    by (simp add: entryRetryCount_def)
  have h0: "\<not> isNonRetryableError timeoutError"
    by code_simp
  then have h2: "\<forall>i<5. \<exists>e'. outcome (flakyOperation i) = Inl e' \<and> \<not> isNonRetryableError e'"
    by (simp add: flakyOperation_def)
  have h3: "outcome (flakyOperation 5) = Inr 42"
    by (simp add: flakyOperation_def)
  have u: "[0..<Suc 5] = [0, 1, 2, 3, 4, 5::nat]"
    by (simp add: upt_conv_Cons)
  from executeWithBackoff_eventual_success[where states = Map.empty and ex = "''binance''"
      and oper = flakyOperation and k = 5 and r = 42 and ctx = None, OF h1 _ h2 h3] u
  show ?thesis
    by (simp add: flakyOperation_def)
qed

subsection \<open>Errors that are not retried\<close>

text \<open>
  Claim C4, as amended. If, for a venue whose retry count is zero, the operation fails with
  a non-retryable error on one of its first five attempts, the earlier ones having failed
  with retryable errors, then \<open>executeWithBackoff\<close> raises that very error, makes no further
  attempt, and resets the venue's retry count and consecutive-error count to zero.
\<close>

theorem executeWithBackoff_non_retryable:
  assumes "entryRetryCount states ex = 0" and "k < 5"
    and "\<forall>i<k. \<exists>e'. outcome (oper i) = Inl e' \<and> \<not> isNonRetryableError e'"
    and "outcome (oper k) = Inl e" and "isNonRetryableError e"
  shows "fst (executeWithBackoff ex oper ctx 0 states) = Inl e \<and>
         invocations (fst (snd (executeWithBackoff ex oper ctx 0 states))) = [0..<Suc k] \<and>
         (\<exists>s. snd (snd (executeWithBackoff ex oper ctx 0 states)) ex = Some s \<and>
              retryCount s = 0 \<and> consecutiveErrors s = 0)"
proof -
  have "\<forall>i<k. \<exists>e'. outcome (oper (0 + i)) = Inl e' \<and> \<not> isNonRetryableError e'"
    using assms(3) by simp
  moreover have "entryRetryCount states ex + k \<le> maxRetries"
    using assms(1,2) by (simp add: maxRetries_def)
  ultimately obtain states' prefix where
    c: "entryRetryCount states' ex = entryRetryCount states ex + k"
       "invocations prefix = [0..<0 + k]"
       "executeWithBackoff ex oper ctx 0 states =
          (case executeWithBackoff ex oper ctx (0 + k) states' of
             (r, events, final) \<Rightarrow> (r, prefix @ events, final))"
    using executeWithBackoff_retries[of k oper 0 states ex ctx] by blast
  have room: "entryRetryCount states' ex < maxRetries"
    using c(1) assms(1,2) by (simp add: maxRetries_def)
  have run: "executeWithBackoff ex oper ctx 0 states =
          (Inl e, prefix @ entryDelay states' ex (random (oper k)) @ [Invoke k],
           resetState (settled (oper k)) ex
             (recordFailure (entered (oper k)) (settled (oper k)) ex states'))"
    using c(3) assms(4,5) room
      activation_not_retried[where oper = oper and n = k and e = e and states = states'
        and ex = ex and ctx = ctx]
    by simp
  show ?thesis
    using c(2) recordFailure_reset[of "settled (oper k)" ex "entered (oper k)" "settled (oper k)" states']
    by (simp add: run)
qed

theorem executeWithBackoff_non_retryable_witness:
  "entryRetryCount Map.empty ''kraken'' = 0 \<and> (2::nat) < 5 \<and>
   \<not> isNonRetryableError timeoutError \<and>
   outcome (lateAuthOperation 2) = Inl authError \<and> isNonRetryableError authError \<and>
   fst (executeWithBackoff ''kraken'' lateAuthOperation None 0 Map.empty) = Inl authError \<and>
   invocations (fst (snd (executeWithBackoff ''kraken'' lateAuthOperation None 0 Map.empty))) =
     [0, 1, 2] \<and>
   (\<exists>s. snd (snd (executeWithBackoff ''kraken'' lateAuthOperation None 0 Map.empty)) ''kraken'' =
          Some s \<and> retryCount s = 0 \<and> consecutiveErrors s = 0)"
proof -
  have h1: "entryRetryCount Map.empty ''kraken'' = 0"
    by (simp add: entryRetryCount_def)
  have h2: "(2::nat) < 5" by simp
  have h0: "\<not> isNonRetryableError timeoutError"
    by code_simp
  then have h3: "\<forall>i<2. \<exists>e'. outcome (lateAuthOperation i) = Inl e' \<and> \<not> isNonRetryableError e'"
    by (simp add: lateAuthOperation_def)
  have h4: "outcome (lateAuthOperation 2) = Inl authError"
    by (simp add: lateAuthOperation_def)
  have h5: "isNonRetryableError authError"
    by code_simp
  have u: "[0..<Suc 2] = [0, 1, 2::nat]"
    by (simp add: upt_conv_Cons)
  from executeWithBackoff_non_retryable[where states = Map.empty and ex = "''kraken''"
      and oper = lateAuthOperation and e = authError and k = 2 and ctx = None,
      OF h1 h2 h3 h4 h5] h1 h0 h4 h5 u
  show ?thesis
    by simp
qed

text \<open>
  The claim as stated fails: after an authentication failure on the first attempt the
  venue's retry count is 0, not 1.
\<close>

theorem executeWithBackoff_non_retryable_counterexample:
  "isNonRetryableError authError \<and>
   fst (executeWithBackoff ''binance'' authOperation None 0 Map.empty) = Inl authError \<and>
   map_option retryCount
     (snd (snd (executeWithBackoff ''binance'' authOperation None 0 Map.empty)) ''binance'') = Some 0"
  by code_simp

subsection \<open>Batches\<close>


lemma settledShape_entries [simp]:
  "settledShape \<lparr>success = True, result = Some r, error = None\<rparr>"
  "settledShape \<lparr>success = False, result = None, error = Some e\<rparr>"
  by (simp_all add: settledShape_def)




lemma groupPush_mset:
  "mset (concat (map snd (groupPush op groups))) = add_mset op (mset (concat (map snd groups)))"
  by (induction groups) auto

lemma batchOrder_mset: "mset (batchOrder operations) = mset operations"
proof -
  have "mset (concat (map snd (foldl (\<lambda>g op. groupPush op g) groups operations))) =
        mset (concat (map snd groups)) + mset operations" for groups
    by (induction operations arbitrary: groups) (simp_all add: groupPush_mset)
  from this[of "[]"] show ?thesis by (simp add: batchOrder_def grouped_def)
qed



lemma executeGroup_success:
  assumes "\<forall>op\<in>set ops. (\<forall>k. isl (outcome (operation op k))) \<or> \<not> isl (outcome (operation op 0))"
  shows "map success (fst (executeGroup ops results events states)) =
         map success results @ map (\<lambda>op. \<not> isl (outcome (operation op 0))) ops"
  using assms
proof (induction ops arbitrary: results events states)
  case Nil
  then show ?case by simp
next
  case (Cons op ops)
  obtain r evs states' where
    run: "executeWithBackoff (exchangeId op) (operation op) (opContext op) 0 states = (r, evs, states')"
    by (cases "executeWithBackoff (exchangeId op) (operation op) (opContext op) 0 states")
  have rest: "\<forall>op\<in>set ops. (\<forall>k. isl (outcome (operation op k))) \<or> \<not> isl (outcome (operation op 0))"
    using Cons.prems by simp
  show ?case
  proof (cases "isl (outcome (operation op 0))")
    case True
    with Cons.prems have "\<forall>k. isl (outcome (operation op k))" by simp
    from executeWithBackoff_persistent_failure[where oper = "operation op"
        and ex = "exchangeId op" and ctx = "opContext op" and n = 0 and states = states] this
    obtain e where "r = Inl e" using run by (cases r) simp_all
    then show ?thesis using run True Cons.IH[OF rest] by simp
  next
    case False
    then obtain v where v: "outcome (operation op 0) = Inr v"
      by (cases "outcome (operation op 0)") simp_all
    from executeWithBackoff_first_success[where oper = "operation op" and r = v
        and ex = "exchangeId op" and ctx = "opContext op" and states = states] v
    have "r = Inr v" using run by simp
    then show ?thesis using run False Cons.IH[OF rest] by simp
  qed
qed

lemma executeGroups_success:
  assumes "\<forall>op\<in>set (concat (map snd groups)).
             (\<forall>k. isl (outcome (operation op k))) \<or> \<not> isl (outcome (operation op 0))"
  shows "map success (fst (executeGroups groups results events states)) =
         map success results @
         map (\<lambda>op. \<not> isl (outcome (operation op 0))) (concat (map snd groups))"
  using assms
proof (induction groups arbitrary: results events states)
  case Nil
  then show ?case by simp
next
  case (Cons g groups)
  obtain k ops where g: "g = (k, ops)" by (cases g)
  define events1 where "events1 = (if length results > 0 then events @ [Sleep 100] else events)"
  obtain results' events' states' where
    grp: "executeGroup ops results events1 states = (results', events', states')"
    by (cases "executeGroup ops results events1 states")
  have "\<forall>op\<in>set ops. (\<forall>k. isl (outcome (operation op k))) \<or> \<not> isl (outcome (operation op 0))"
    using Cons.prems by (simp add: g)
  from executeGroup_success[OF this, of results events1 states]
  have first: "map success results' =
                 map success results @ map (\<lambda>op. \<not> isl (outcome (operation op 0))) ops"
    by (simp add: grp)
  have rest: "\<forall>op\<in>set (concat (map snd groups)).
             (\<forall>k. isl (outcome (operation op k))) \<or> \<not> isl (outcome (operation op 0))"
    using Cons.prems by simp
  have "executeGroups (g # groups) results events states =
        executeGroups groups results' events' states'"
    using grp by (simp add: g events1_def)
  then show ?case using Cons.IH[OF rest, of results' events' states'] first
    by (simp add: g)
qed



text \<open>
  The entries come in the order in which the operations are run, venue group after
  venue group, which is the order given only when each venue's operations are adjacent.
\<close>

lemma executeBatch_success:
  assumes "\<forall>op\<in>set operations.
             (\<forall>k. isl (outcome (operation op k))) \<or> \<not> isl (outcome (operation op 0))"
  shows "map success (fst (executeBatch operations states)) =
         map (\<lambda>op. \<not> isl (outcome (operation op 0))) (batchOrder operations)"
proof -
  have "set (batchOrder operations) = set operations"
    using batchOrder_mset[of operations] by (metis set_mset_mset)
  then have "\<forall>op\<in>set (concat (map snd (grouped operations))).
             (\<forall>k. isl (outcome (operation op k))) \<or> \<not> isl (outcome (operation op 0))"
    using assms by (simp add: batchOrder_def)
  from executeGroups_success[OF this, of "[]" "[]" states]
  show ?thesis by (simp add: executeBatch_def batchOrder_def)
qed

lemma batchOrder_regroups:
  "exchangeId a = exchangeId c \<Longrightarrow> exchangeId a \<noteq> exchangeId b \<Longrightarrow>
   batchOrder [a, b, c] = [a, c, b]"
  by (simp add: batchOrder_def grouped_def)




section \<open>Properties of the quote cache\<close>

subsection \<open>Parameters of a store never change\<close>

lemma autopurge_params [simp]:
  "ttl (autopurge now c) = ttl c" "maxEntries (autopurge now c) = maxEntries c"
  "updateAgeOnGet (autopurge now c) = updateAgeOnGet c"
  by (simp_all add: autopurge_def)

lemma lruGet_params [simp]:
  "ttl (snd (lruGet k now c)) = ttl c" "maxEntries (snd (lruGet k now c)) = maxEntries c"
  "updateAgeOnGet (snd (lruGet k now c)) = updateAgeOnGet c"
  by (simp_all add: lruGet_def Let_def split: option.splits)

lemma lruSet_params [simp]:
  "ttl (lruSet k v now c) = ttl c" "maxEntries (lruSet k v now c) = maxEntries c"
  "updateAgeOnGet (lruSet k v now c) = updateAgeOnGet c"
  by (simp_all add: lruSet_def Let_def split: option.splits)

subsection \<open>Timers keep keys, values and start times\<close>

lemma fireTimer_Some:
  "fireTimer t now ke = Some ke' \<Longrightarrow>
   fst ke' = fst ke \<and> val (snd ke') = val (snd ke) \<and> start (snd ke') = start (snd ke)"
  by (auto simp: fireTimer_def split: option.splits if_splits)

lemma set_map_filter_fireTimer:
  "ke' \<in> set (List.map_filter (fireTimer t now) es) \<Longrightarrow>
   \<exists>ke\<in>set es. fst ke' = fst ke \<and> val (snd ke') = val (snd ke) \<and> start (snd ke') = start (snd ke)"
proof -
  assume "ke' \<in> set (List.map_filter (fireTimer t now) es)"
  then obtain ke where ke: "ke \<in> set es" "fireTimer t now ke = Some ke'"
    by (auto simp: List.map_filter_def)
  from fireTimer_Some[OF ke(2)] ke(1) show ?thesis by blast
qed

subsection \<open>Expiry\<close>

lemma startedBy_entries:
  "startedBy t0 k c \<longleftrightarrow> (\<forall>ke\<in>set (entries c). fst ke = k \<longrightarrow> start (snd ke) \<le> t0)"
  by (auto simp: startedBy_def list_all_iff)

lemma autopurge_startedBy: "startedBy t0 k c \<Longrightarrow> startedBy t0 k (autopurge now c)"
  unfolding startedBy_entries
  by (auto simp: autopurge_def dest!: set_map_filter_fireTimer)

lemma set_delete_subset: "ke \<in> set (AList.delete k es) \<Longrightarrow> ke \<in> set es \<and> fst ke \<noteq> k"
  by (induction es) (auto split: if_splits)

lemma lruGet_startedBy:
  assumes "startedBy t0 k c" "k' \<noteq> k \<or> \<not> updateAgeOnGet c"
  shows "startedBy t0 k (snd (lruGet k' now c))"
proof -
  have p: "startedBy t0 k (autopurge now c)" using assms(1) by (rule autopurge_startedBy)
  show ?thesis
  proof (cases "map_of (entries (autopurge now c)) k'")
    case None
    then show ?thesis using p by (simp add: lruGet_def Let_def)
  next
    case (Some e)
    then have mem: "(k', e) \<in> set (entries (autopurge now c))" by (rule map_of_SomeD)
    show ?thesis
      using p Some mem assms(2)
      unfolding startedBy_entries
      by (auto simp: lruGet_def Let_def dest!: set_delete_subset)
  qed
qed

lemma lruSet_startedBy:
  assumes "startedBy t0 k c" "k' \<noteq> k"
  shows "startedBy t0 k (lruSet k' v now c)"
proof -
  have p: "startedBy t0 k (autopurge now c)" using assms(1) by (rule autopurge_startedBy)
  then show ?thesis using assms(2)
    unfolding startedBy_entries
    by (auto simp: lruSet_def Let_def split: option.splits
        dest!: set_delete_subset in_set_butlastD)
qed

lemma map_of_None_fst: "map_of es k = None \<Longrightarrow> ke \<in> set es \<Longrightarrow> fst ke \<noteq> k"
  by (metis map_of_eq_None_iff image_eqI)

lemma lruSet_same_startedBy: "startedBy now k (lruSet k v now c)"
  unfolding startedBy_entries
  by (auto simp: lruSet_def Let_def split: option.splits
      dest!: set_delete_subset in_set_butlastD dest: map_of_None_fst)

lemma lruGet_expired:
  assumes "startedBy t0 k c" "t0 + ttl c < now"
  shows "fst (lruGet k now c) = None"
proof -
  have p: "startedBy t0 k (autopurge now c)" using assms(1) by (rule autopurge_startedBy)
  show ?thesis
  proof (cases "map_of (entries (autopurge now c)) k")
    case None
    then show ?thesis by (simp add: lruGet_def Let_def)
  next
    case (Some e)
    then have "(k, e) \<in> set (entries (autopurge now c))" by (rule map_of_SomeD)
    with p have "start e \<le> t0" unfolding startedBy_entries by fastforce
    with assms(2) have "isStale (ttl c) now e" by (simp add: isStale_def)
    then show ?thesis using Some by (simp add: lruGet_def Let_def)
  qed
qed

subsection \<open>Positions\<close>

lemma position_delete: "k' \<noteq> k \<Longrightarrow> position k (AList.delete k' es) \<le> position k es"
  by (induction es) auto

lemma map_of_delete_other: "k' \<noteq> k \<Longrightarrow> map_of (AList.delete k' es) k = map_of es k"
  by (induction es) auto

lemma position_less_length: "map_of es k = Some e \<Longrightarrow> position k es < length es"
  by (induction es) (auto split: if_splits)

lemma map_of_butlast:
  "map_of es k = Some e \<Longrightarrow> Suc (position k es) < length es \<Longrightarrow> map_of (butlast es) k = Some e"
  by (induction es) (auto split: if_splits)

lemma position_butlast:
  "Suc (position k es) < length es \<Longrightarrow> position k (butlast es) = position k es"
  by (induction es) (auto split: if_splits)

lemma map_filter_keeps:
  assumes "map_of es k = Some e" "f (k, e) = Some (k, e)"
    and "\<And>ke ke'. f ke = Some ke' \<Longrightarrow> fst ke' = fst ke"
  shows "map_of (List.map_filter f es) k = Some e \<and>
         position k (List.map_filter f es) \<le> position k es"
  using assms(1)
proof (induction es)
  case Nil
  then show ?case by simp
next
  case (Cons ke es)
  show ?case
  proof (cases "fst ke = k")
    case True
    with Cons.prems have "ke = (k, e)" by (cases ke) simp
    then show ?thesis using assms(2) by (simp add: List.map_filter_simps)
  next
    case False
    with Cons.prems have "map_of es k = Some e" by (cases ke) simp
    from Cons.IH[OF this] show ?thesis
      using False assms(3)[of ke]
      by (cases "f ke") (auto simp: List.map_filter_simps)
  qed
qed

subsection \<open>Keeping an entry\<close>

lemma kept_mono: "kept k v t0 n c \<Longrightarrow> n \<le> m \<Longrightarrow> kept k v t0 m c"
  by (auto simp: kept_def split: option.splits)

lemma keptD:
  assumes "kept k v t0 n c"
  obtains e where "map_of (entries c) k = Some e" "val e = v" "t0 \<le> start e"
    "dueAfter (t0 + ttl c) (purgeAt e)"
    "position k (entries c) \<le> n"
  using assms by (auto simp: kept_def split: option.splits)

lemma autopurge_kept:
  assumes "kept k v t0 n c" "now \<le> t0 + ttl c"
  shows "kept k v t0 n (autopurge now c)"
proof -
  from assms(1) obtain e where e: "map_of (entries c) k = Some e" "val e = v" "t0 \<le> start e"
    "dueAfter (t0 + ttl c) (purgeAt e)"
    "position k (entries c) \<le> n"
    by (rule keptD)
  have same: "fireTimer (ttl c) now (k, e) = Some (k, e)"
    using e(4) assms(2) by (cases "purgeAt e") (auto simp: fireTimer_def)
  have keys: "\<And>ke ke'. fireTimer (ttl c) now ke = Some ke' \<Longrightarrow> fst ke' = fst ke"
    using fireTimer_Some by blast
  from map_filter_keeps[where f = "fireTimer (ttl c) now" and es = "entries c" and k = k and e = e]
    e(1) same keys
  have "map_of (List.map_filter (fireTimer (ttl c) now) (entries c)) k = Some e \<and>
        position k (List.map_filter (fireTimer (ttl c) now) (entries c)) \<le> position k (entries c)"
    by blast
  then show ?thesis using e by (simp add: kept_def autopurge_def)
qed

lemma lruSet_kept_same: "kept k v now 0 (lruSet k v now c)"
  by (simp add: kept_def lruSet_def Let_def split: option.splits)

lemma lruGet_kept_hit:
  assumes "kept k v t0 n c" "now \<le> t0 + ttl c"
  shows "fst (lruGet k now c) = Some v"
proof -
  from autopurge_kept[OF assms] obtain e where
    e: "map_of (entries (autopurge now c)) k = Some e" "val e = v" "t0 \<le> start e"
    by (rule keptD)
  have "\<not> isStale (ttl c) now e" using e(3) assms(2) by (simp add: isStale_def)
  then show ?thesis using e by (simp add: lruGet_def Let_def)
qed

lemma lruGet_kept_same:
  assumes "kept k v t0 n c" "now \<le> t0 + ttl c" "t0 \<le> now"
  shows "kept k v t0 0 (snd (lruGet k now c))"
proof -
  from autopurge_kept[OF assms(1,2)] obtain e where
    e: "map_of (entries (autopurge now c)) k = Some e" "val e = v" "t0 \<le> start e"
       "dueAfter (t0 + ttl (autopurge now c)) (purgeAt e)"
    by (rule keptD)
  have "\<not> isStale (ttl c) now e" using e(3) assms(2) by (simp add: isStale_def)
  then show ?thesis using e assms(3) by (simp add: lruGet_def Let_def kept_def)
qed

lemma lruGet_kept_other:
  assumes "kept k v t0 n c" "now \<le> t0 + ttl c" "k' \<noteq> k"
  shows "kept k v t0 (Suc n) (snd (lruGet k' now c))"
proof -
  define p where "p = autopurge now c"
  have kp: "kept k v t0 n p" unfolding p_def by (rule autopurge_kept[OF assms(1,2)])
  then obtain e where
    e: "map_of (entries p) k = Some e" "val e = v" "t0 \<le> start e"
       "dueAfter (t0 + ttl p) (purgeAt e)"
       "position k (entries p) \<le> n"
    by (rule keptD)
  have d: "map_of (AList.delete k' (entries p)) k = Some e"
    "position k (AList.delete k' (entries p)) \<le> n"
    using e(1,5) map_of_delete_other[OF assms(3), of "entries p"]
      position_delete[OF assms(3), of "entries p"]
    by simp_all
  show ?thesis
  proof (cases "map_of (entries p) k'")
    case None
    then show ?thesis using kp kept_mono[of k v t0 n p "Suc n"]
      by (simp add: lruGet_def Let_def p_def[symmetric])
  next
    case (Some e')
    then show ?thesis using d e(2,3,4) assms(3)
      by (simp add: lruGet_def Let_def p_def[symmetric] kept_def)
  qed
qed

lemma lruSet_kept_other:
  assumes "kept k v t0 n c" "now \<le> t0 + ttl c" "k' \<noteq> k" "Suc n < maxEntries c"
  shows "kept k v t0 (Suc n) (lruSet k' v' now c)"
proof -
  define p where "p = autopurge now c"
  have kp: "kept k v t0 n p" unfolding p_def by (rule autopurge_kept[OF assms(1,2)])
  then obtain e where
    e: "map_of (entries p) k = Some e" "val e = v" "t0 \<le> start e"
       "dueAfter (t0 + ttl p) (purgeAt e)"
       "position k (entries p) \<le> n"
    by (rule keptD)
  have params: "ttl p = ttl c" "maxEntries p = maxEntries c" by (simp_all add: p_def)
  show ?thesis
  proof (cases "map_of (entries p) k'")
    case (Some old)
    have "map_of (AList.delete k' (entries p)) k = Some e"
      "position k (AList.delete k' (entries p)) \<le> n"
      using e(1,5) map_of_delete_other[OF assms(3), of "entries p"]
        position_delete[OF assms(3), of "entries p"]
      by simp_all
    then show ?thesis using Some e(2,3,4) assms(3) params
      by (simp add: lruSet_def Let_def p_def[symmetric] kept_def)
  next
    case None
    show ?thesis
    proof (cases "length (entries p) \<ge> maxEntries p")
      case True
      then have "Suc (position k (entries p)) < length (entries p)"
        using e(5) assms(4) params by simp
      from map_of_butlast[OF e(1) this] position_butlast[OF this]
      show ?thesis using None True e(2,3,4,5) assms(3) params
        by (simp add: lruSet_def Let_def p_def[symmetric] kept_def)
    next
      case False
      then show ?thesis using None e assms(3) params
        by (simp add: lruSet_def Let_def p_def[symmetric] kept_def)
    qed
  qed
qed

subsection \<open>The five classes\<close>

lemma fst_cacheGet: "fst (cacheGet r now c) = fst (lruGet (keyOf r) now (storeOf (classOf r) c))"
  by (cases r)
     (simp_all add: getTicker_def getOrderBook_def getOHLCV_def getMarkets_def getTrades_def
        split: prod.splits)

lemma storeOf_cacheGet:
  "storeOf cls (snd (cacheGet r now c)) =
   (if classOf r = cls then snd (lruGet (keyOf r) now (storeOf cls c)) else storeOf cls c)"
  by (cases r; cases cls)
     (simp_all add: getTicker_def getOrderBook_def getOHLCV_def getMarkets_def getTrades_def
        split: prod.splits)

lemma storeOf_cacheSet:
  "storeOf cls (cacheSet r v now c) =
   (if classOf r = cls then lruSet (keyOf r) v now (storeOf cls c) else storeOf cls c)"
  by (cases r; cases cls)
     (simp_all add: setTicker_def setOrderBook_def setOHLCV_def setMarkets_def setTrades_def)

lemma storeOf_runCall_params [simp]:
  "ttl (storeOf cls (runCall call c)) = ttl (storeOf cls c)"
  "maxEntries (storeOf cls (runCall call c)) = maxEntries (storeOf cls c)"
  "updateAgeOnGet (storeOf cls (runCall call c)) = updateAgeOnGet (storeOf cls c)"
proof -
  obtain now op where call: "call = (now, op)" by (cases call)
  show "ttl (storeOf cls (runCall call c)) = ttl (storeOf cls c)"
    "maxEntries (storeOf cls (runCall call c)) = maxEntries (storeOf cls c)"
    "updateAgeOnGet (storeOf cls (runCall call c)) = updateAgeOnGet (storeOf cls c)"
    by (cases op; simp add: call storeOf_cacheGet storeOf_cacheSet)+
qed

lemma runCalls_Cons: "runCalls (call # calls) c = runCalls calls (runCall call c)"
  by (simp add: runCalls_def)

lemma runCalls_Nil: "runCalls [] c = c"
  by (simp add: runCalls_def)

lemma storeOf_runCalls_params [simp]:
  "ttl (storeOf cls (runCalls calls c)) = ttl (storeOf cls c)"
  "maxEntries (storeOf cls (runCalls calls c)) = maxEntries (storeOf cls c)"
  "updateAgeOnGet (storeOf cls (runCalls calls c)) = updateAgeOnGet (storeOf cls c)"
  by (induction calls arbitrary: c; simp add: runCalls_Nil runCalls_Cons)+

lemma storeOf_cacheSet_params [simp]:
  "ttl (storeOf cls (cacheSet r v now c)) = ttl (storeOf cls c)"
  "maxEntries (storeOf cls (cacheSet r v now c)) = maxEntries (storeOf cls c)"
  "updateAgeOnGet (storeOf cls (cacheSet r v now c)) = updateAgeOnGet (storeOf cls c)"
  by (simp_all add: storeOf_cacheSet)

subsection \<open>Histories\<close>

lemma runCall_startedBy:
  assumes "startedBy t0 k (storeOf cls c)" "\<not> resetsAge c cls k (snd call)"
  shows "startedBy t0 k (storeOf cls (runCall call c))"
proof -
  obtain now op where call: "call = (now, op)" by (cases call)
  show ?thesis
  proof (cases op)
    case (Get r)
    then show ?thesis using assms call
      by (auto simp: storeOf_cacheGet intro: lruGet_startedBy)
  next
    case (Put r v)
    then show ?thesis using assms call
      by (auto simp: storeOf_cacheSet intro: lruSet_startedBy)
  qed
qed

lemma resetsAge_params:
  "updateAgeOnGet (storeOf cls c') = updateAgeOnGet (storeOf cls c) \<Longrightarrow>
   resetsAge c' cls k op = resetsAge c cls k op"
  by (cases op) simp_all

lemma runCalls_startedBy:
  assumes "startedBy t0 k (storeOf cls c)"
    and "list_all (\<lambda>call. \<not> resetsAge c cls k (snd call)) calls"
  shows "startedBy t0 k (storeOf cls (runCalls calls c))"
  using assms
proof (induction calls arbitrary: c)
  case Nil
  then show ?case by (simp add: runCalls_Nil)
next
  case (Cons call calls)
  have same: "\<And>op. resetsAge (runCall call c) cls k op = resetsAge c cls k op"
    by (rule resetsAge_params) simp
  have "startedBy t0 k (storeOf cls (runCall call c))"
    using Cons.prems by (intro runCall_startedBy) simp_all
  moreover have "list_all (\<lambda>call'. \<not> resetsAge (runCall call c) cls k (snd call')) calls"
    using Cons.prems(2) by (simp add: same)
  ultimately show ?case using Cons.IH[of "runCall call c"]
    by (simp add: runCalls_Cons)
qed

lemma runCall_kept:
  assumes "kept k v t0 n (storeOf cls c)"
    and "\<not> putsKey cls k (snd call)" "t0 \<le> fst call" "fst call \<le> t0 + ttl (storeOf cls c)"
    and "Suc n < maxEntries (storeOf cls c)"
  shows "kept k v t0 (Suc n) (storeOf cls (runCall call c))"
proof -
  obtain now op where call: "call = (now, op)" by (cases call)
  have stay: "kept k v t0 (Suc n) (storeOf cls c)"
    using assms(1) by (rule kept_mono) simp
  show ?thesis
  proof (cases op)
    case (Get r)
    show ?thesis
    proof (cases "classOf r = cls")
      case False
      then show ?thesis using stay call Get by (simp add: storeOf_cacheGet)
    next
      case True
      show ?thesis
      proof (cases "keyOf r = k")
        case True
        have "kept k v t0 0 (snd (lruGet k now (storeOf cls c)))"
          using assms(1,3,4) call by (intro lruGet_kept_same) simp_all
        then have "kept k v t0 (Suc n) (snd (lruGet k now (storeOf cls c)))"
          by (rule kept_mono) simp
        then show ?thesis using call Get True \<open>classOf r = cls\<close> by (simp add: storeOf_cacheGet)
      next
        case False
        have "kept k v t0 (Suc n) (snd (lruGet (keyOf r) now (storeOf cls c)))"
          using assms(1,4) call False by (intro lruGet_kept_other) simp_all
        then show ?thesis using call Get \<open>classOf r = cls\<close> by (simp add: storeOf_cacheGet)
      qed
    qed
  next
    case (Put r v')
    show ?thesis
    proof (cases "classOf r = cls")
      case False
      then show ?thesis using stay call Put by (simp add: storeOf_cacheSet)
    next
      case True
      then have other: "keyOf r \<noteq> k" using assms(2) call Put by simp
      have "kept k v t0 (Suc n) (lruSet (keyOf r) v' now (storeOf cls c))"
        using assms(1,4,5) call other by (intro lruSet_kept_other) simp_all
      then show ?thesis using call Put True by (simp add: storeOf_cacheSet)
    qed
  qed
qed

lemma runCalls_kept:
  assumes "kept k v t0 n (storeOf cls c)"
    and "list_all (\<lambda>call. \<not> putsKey cls k (snd call) \<and> t0 \<le> fst call \<and>
                          fst call \<le> t0 + ttl (storeOf cls c)) calls"
    and "n + length calls < maxEntries (storeOf cls c)"
  shows "kept k v t0 (n + length calls) (storeOf cls (runCalls calls c))"
  using assms
proof (induction calls arbitrary: c n)
  case Nil
  then show ?case by (simp add: runCalls_Nil)
next
  case (Cons call calls)
  have "kept k v t0 (Suc n) (storeOf cls (runCall call c))"
    using Cons.prems by (intro runCall_kept) simp_all
  moreover have "list_all (\<lambda>call'. \<not> putsKey cls k (snd call') \<and> t0 \<le> fst call' \<and>
                    fst call' \<le> t0 + ttl (storeOf cls (runCall call c))) calls"
    using Cons.prems(2) by simp
  moreover have "Suc n + length calls < maxEntries (storeOf cls (runCall call c))"
    using Cons.prems(3) by simp
  ultimately have "kept k v t0 (Suc n + length calls)
                     (storeOf cls (runCalls calls (runCall call c)))"
    by (rule Cons.IH)
  then show ?case by (simp add: runCalls_Cons)
qed


subsection \<open>What the constructor builds\<close>

lemma newMarketDataCache_built: "newMarketDataCache = Inr builtCaches"
  by (simp add: newMarketDataCache_def TICKER_TTL_MS_def ORDERBOOK_TTL_MS_def OHLCV_TTL_MS_def
      MARKET_TTL_MS_def TRADES_TTL_MS_def)

lemma builtCaches_ttl:
  "ttl (tickerCache builtCaches) = 10000"
  "ttl (orderBookCache builtCaches) = 5000"
  "ttl (ohlcvCache builtCaches) = 60000"
  "ttl (marketCache builtCaches) = 3600000"
  "ttl (tradesCache builtCaches) = 10000"
  by (simp_all add: builtCaches_def newLRUCache_def TICKER_TTL_MS_def ORDERBOOK_TTL_MS_def
      OHLCV_TTL_MS_def MARKET_TTL_MS_def TRADES_TTL_MS_def)

lemma builtCaches_maxEntries:
  "maxEntries (tickerCache builtCaches) = 500"
  "maxEntries (orderBookCache builtCaches) = 200"
  "maxEntries (ohlcvCache builtCaches) = 300"
  "maxEntries (marketCache builtCaches) = 1000"
  "maxEntries (tradesCache builtCaches) = 200"
  by (simp_all add: builtCaches_def newLRUCache_def TICKER_MAX_ENTRIES_def
      ORDERBOOK_MAX_ENTRIES_def OHLCV_MAX_ENTRIES_def MARKET_MAX_ENTRIES_def
      TRADES_MAX_ENTRIES_def)

lemma builtCaches_updateAgeOnGet:
  "updateAgeOnGet (storeOf cls builtCaches) = (cls \<noteq> MarketClass)"
  by (cases cls) (simp_all add: builtCaches_def newLRUCache_def)

text \<open>
  Capacity evicts within the TTL: in a store of capacity 2 with a TTL of 10 s, the key set
  at 10 ms is gone at 40 ms, after two other keys were set.
\<close>

lemma lruSet_evicts: "fst (lruGet ''a'' 40 smallStore) = None"
  by (simp add: smallStore_def newLRUCache_def lruSet_def lruGet_def autopurge_def
      fireTimer_def isStale_def List.map_filter_def Let_def)


subsection \<open>Expiry and round trip\<close>

lemma expired_after_ttl:
  assumes "list_all (leavesAge c r) calls" and "t0 + ttl (storeOf (classOf r) c) < t"
  shows "fst (cacheGet r t (runCalls calls (cacheSet r v t0 c))) = None"
proof -
  define c1 where "c1 = cacheSet r v t0 c"
  have "startedBy t0 (keyOf r) (storeOf (classOf r) c1)"
    by (simp add: c1_def storeOf_cacheSet lruSet_same_startedBy)
  moreover have "list_all (\<lambda>call. \<not> resetsAge c1 (classOf r) (keyOf r) (snd call)) calls"
  proof -
    have "\<And>op. resetsAge c1 (classOf r) (keyOf r) op = resetsAge c (classOf r) (keyOf r) op"
      by (rule resetsAge_params) (simp add: c1_def)
    then show ?thesis using assms(1) by (simp add: leavesAge_def[abs_def])
  qed
  ultimately have "startedBy t0 (keyOf r) (storeOf (classOf r) (runCalls calls c1))"
    by (rule runCalls_startedBy)
  moreover have "t0 + ttl (storeOf (classOf r) (runCalls calls c1)) < t"
    using assms(2) by (simp add: c1_def)
  ultimately show ?thesis
    unfolding c1_def[symmetric] fst_cacheGet by (rule lruGet_expired)
qed

lemma round_trip_within_ttl:
  assumes "list_all (insideWindow c r t0) calls"
    and "length calls < maxEntries (storeOf (classOf r) c)"
    and "t \<le> t0 + ttl (storeOf (classOf r) c)"
  shows "fst (cacheGet r t (runCalls calls (cacheSet r v t0 c))) = Some v"
proof -
  define c1 where "c1 = cacheSet r v t0 c"
  have "kept (keyOf r) v t0 0 (storeOf (classOf r) c1)"
    by (simp add: c1_def storeOf_cacheSet lruSet_kept_same)
  moreover have "list_all (\<lambda>call. \<not> putsKey (classOf r) (keyOf r) (snd call) \<and> t0 \<le> fst call \<and>
                          fst call \<le> t0 + ttl (storeOf (classOf r) c1)) calls"
    using assms(1) by (simp add: insideWindow_def[abs_def] c1_def)
  moreover have "0 + length calls < maxEntries (storeOf (classOf r) c1)"
    using assms(2) by (simp add: c1_def)
  ultimately have "kept (keyOf r) v t0 (0 + length calls)
                     (storeOf (classOf r) (runCalls calls c1))"
    by (rule runCalls_kept)
  moreover have "t \<le> t0 + ttl (storeOf (classOf r) (runCalls calls c1))"
    using assms(3) by (simp add: c1_def)
  ultimately show ?thesis
    unfolding c1_def[symmetric] fst_cacheGet by (rule lruGet_kept_hit)
qed

text \<open>
  Renewals. A get that returns the entry of a store built with \<open>updateAgeOnGet\<close> restarts
  its age; a get that returns nothing leaves no younger entry behind. So after any history
  the age of an entry is counted from the last call that renewed it, or from earlier.
\<close>

lemma lruGet_hit_startedBy:
  assumes "fst (lruGet k now c) \<noteq> None" "updateAgeOnGet c"
  shows "startedBy now k (snd (lruGet k now c))"
proof (cases "map_of (entries (autopurge now c)) k")
  case None
  then show ?thesis using assms(1) by (simp add: lruGet_def Let_def)
next
  case (Some e)
  then show ?thesis using assms
    unfolding startedBy_entries
    by (auto simp: lruGet_def Let_def split: if_splits dest!: set_delete_subset)
qed

lemma lruGet_miss_startedBy:
  assumes "fst (lruGet k' now c) = None" "startedBy a k c"
  shows "startedBy a k (snd (lruGet k' now c))"
proof -
  have p: "startedBy a k (autopurge now c)" using assms(2) by (rule autopurge_startedBy)
  show ?thesis
  proof (cases "map_of (entries (autopurge now c)) k'")
    case None
    then show ?thesis using p by (simp add: lruGet_def Let_def)
  next
    case (Some e)
    then show ?thesis using p assms(1)
      unfolding startedBy_entries
      by (auto simp: lruGet_def Let_def split: if_splits dest!: set_delete_subset)
  qed
qed

lemma runCall_renewal:
  assumes "startedBy a (keyOf r) (storeOf (classOf r) c)"
  shows "startedBy (if renewsAge c r call then fst call else a) (keyOf r)
           (storeOf (classOf r) (runCall call c))"
proof -
  obtain now op where call: "call = (now, op)" by (cases call)
  show ?thesis
  proof (cases op)
    case (Put r' v')
    show ?thesis
    proof (cases "classOf r' = classOf r \<and> keyOf r' = keyOf r")
      case True
      then show ?thesis using call Put
        by (simp add: storeOf_cacheSet lruSet_same_startedBy)
    next
      case False
      then show ?thesis using call Put assms
        by (auto simp: storeOf_cacheSet intro: lruSet_startedBy)
    qed
  next
    case (Get r')
    show ?thesis
    proof (cases "classOf r' = classOf r")
      case False
      then show ?thesis using call Get assms by (simp add: storeOf_cacheGet)
    next
      case cls: True
      show ?thesis
      proof (cases "fst (lruGet (keyOf r') now (storeOf (classOf r) c)) = None")
        case True
        then have "startedBy a (keyOf r) (snd (lruGet (keyOf r') now (storeOf (classOf r) c)))"
          using assms by (rule lruGet_miss_startedBy)
        then show ?thesis using call Get cls True
          by (simp add: storeOf_cacheGet fst_cacheGet)
      next
        case hit: False
        show ?thesis
        proof (cases "keyOf r' = keyOf r \<and> updateAgeOnGet (storeOf (classOf r) c)")
          case True
          then have "startedBy now (keyOf r) (snd (lruGet (keyOf r) now (storeOf (classOf r) c)))"
            using hit by (intro lruGet_hit_startedBy) simp_all
          then show ?thesis using call Get cls True hit
            by (simp add: storeOf_cacheGet fst_cacheGet)
        next
          case False
          then have "startedBy a (keyOf r) (snd (lruGet (keyOf r') now (storeOf (classOf r) c)))"
            using assms by (intro lruGet_startedBy) auto
          then show ?thesis using call Get cls False
            by (auto simp: storeOf_cacheGet)
        qed
      qed
    qed
  qed
qed

lemma runCalls_renewal:
  assumes "startedBy a (keyOf r) (storeOf (classOf r) c)"
  shows "startedBy (lastRenewal r calls c a) (keyOf r) (storeOf (classOf r) (runCalls calls c))"
  using assms
proof (induction calls arbitrary: c a)
  case Nil
  then show ?case by (simp add: runCalls_Nil)
next
  case (Cons call calls)
  have "startedBy (if renewsAge c r call then fst call else a) (keyOf r)
          (storeOf (classOf r) (runCall call c))"
    using Cons.prems by (rule runCall_renewal)
  from Cons.IH[OF this] show ?case by (simp add: runCalls_Cons)
qed

lemma expired_after_renewal:
  assumes "lastRenewal r calls (cacheSet r v t0 c) t0 + ttl (storeOf (classOf r) c) < t"
  shows "fst (cacheGet r t (runCalls calls (cacheSet r v t0 c))) = None"
proof -
  define c1 where "c1 = cacheSet r v t0 c"
  have "startedBy t0 (keyOf r) (storeOf (classOf r) c1)"
    by (simp add: c1_def storeOf_cacheSet lruSet_same_startedBy)
  then have "startedBy (lastRenewal r calls c1 t0) (keyOf r)
               (storeOf (classOf r) (runCalls calls c1))"
    by (rule runCalls_renewal)
  moreover have "lastRenewal r calls c1 t0 + ttl (storeOf (classOf r) (runCalls calls c1)) < t"
    using assms by (simp add: c1_def)
  ultimately show ?thesis
    unfolding c1_def[symmetric] fst_cacheGet by (rule lruGet_expired)
qed

text \<open>
  The parameters of the five stores in every state that a history of calls reaches from
  the constructor: only the market store is built without \<open>updateAgeOnGet\<close>.
\<close>

lemma reachable_updateAgeOnGet:
  "updateAgeOnGet (storeOf cls (runCalls prior builtCaches)) = (cls \<noteq> MarketClass)"
  by (simp add: builtCaches_updateAgeOnGet)

lemma reachable_ttl:
  fixes prior :: "(nat \<times> 'v CacheCall) list"
  shows "ttl (storeOf cls (runCalls prior builtCaches)) =
     (case cls of TickerClass \<Rightarrow> 10000 | OrderBookClass \<Rightarrow> 5000 | OHLCVClass \<Rightarrow> 60000
      | MarketClass \<Rightarrow> 3600000 | TradesClass \<Rightarrow> 10000)"
proof -
  have "ttl (storeOf cls (runCalls prior builtCaches)) =
        ttl (storeOf cls (builtCaches :: 'v MarketDataCache))"
    by (rule storeOf_runCalls_params)
  then show ?thesis by (cases cls) (simp_all add: builtCaches_ttl)
qed

text \<open>
  In the market class a get does not renew the age, so there the TTL of one hour counts
  from the set, whatever reads of the same key come in between.
\<close>

lemma market_expiry:
  fixes v :: 'v and prior :: "(nat \<times> 'v CacheCall) list"
  assumes "list_all (leavesKey (MarketsOf ex)) calls" and "t0 + 3600000 < t"
  shows "fst (getMarkets ex t (runCalls calls (setMarkets ex v t0 (runCalls prior builtCaches)))) = None"
proof -
  define c where "c = runCalls prior (builtCaches :: 'v MarketDataCache)"
  have m: "\<not> updateAgeOnGet (storeOf MarketClass c)"
    unfolding c_def using reachable_updateAgeOnGet[of MarketClass prior] by simp
  have "list_all (leavesAge c (MarketsOf ex)) calls"
  proof -
    have "\<not> putsKey MarketClass ex op \<Longrightarrow> \<not> resetsAge c MarketClass ex op" for op
      using m by (cases op) simp_all
    then show ?thesis using assms(1)
      by (auto simp: leavesAge_def leavesKey_def list_all_iff)
  qed
  moreover have "t0 + ttl (storeOf (classOf (MarketsOf ex)) c) < t"
    using assms(2) reachable_ttl[of MarketClass prior] unfolding c_def by simp
  ultimately have "fst (cacheGet (MarketsOf ex) t
                     (runCalls calls (cacheSet (MarketsOf ex) v t0 c))) = None"
    by (rule expired_after_ttl)
  then show ?thesis by (simp add: c_def)
qed

text \<open>
  Claim C2, as amended. For every data class and key, after a value has been set at time
  \<open>t0\<close> and whatever calls came after it:
  \<^item> a get made more than the class's TTL after the age of the entry was last renewed
    returns nothing, where the age is renewed by a set of the key and, in a class built
    with \<open>updateAgeOnGet\<close>, by every get of the key that returns a value;
  \<^item> in every state reached from the constructor the TTL of a class is the one the
    constructor passes (10 s, 5 s, 60 s, 1 h, 10 s) and the classes built with
    \<open>updateAgeOnGet\<close> are all but the market class;
  \<^item> in the market class a get made more than one hour after the set returns nothing,
    whatever reads of the key came in between, provided the key was not set again;
  \<^item> a get made no later than the TTL after \<open>t0\<close> returns exactly the value set, provided
    the calls in between were made within that time, none of them set the key, and they
    were fewer than the class's capacity.
\<close>

theorem cache_expiry_and_round_trip:
  fixes c :: "'v MarketDataCache" and prior :: "(nat \<times> 'v CacheCall) list"
  shows
  "(lastRenewal r calls (cacheSet r v t0 c) t0 + ttl (storeOf (classOf r) c) < t \<longrightarrow>
      fst (cacheGet r t (runCalls calls (cacheSet r v t0 c))) = None) \<and>
   ttl (storeOf cls (runCalls prior builtCaches)) =
     (case cls of TickerClass \<Rightarrow> 10000 | OrderBookClass \<Rightarrow> 5000 | OHLCVClass \<Rightarrow> 60000
      | MarketClass \<Rightarrow> 3600000 | TradesClass \<Rightarrow> 10000) \<and>
   updateAgeOnGet (storeOf cls (runCalls prior builtCaches)) = (cls \<noteq> MarketClass) \<and>
   (list_all (leavesKey (MarketsOf ex)) calls \<and> t0 + 3600000 < t \<longrightarrow>
      fst (getMarkets ex t (runCalls calls (setMarkets ex v t0 (runCalls prior builtCaches)))) = None) \<and>
   (list_all (insideWindow c r t0) calls \<and> length calls < maxEntries (storeOf (classOf r) c) \<and>
    t \<le> t0 + ttl (storeOf (classOf r) c) \<longrightarrow>
      fst (cacheGet r t (runCalls calls (cacheSet r v t0 c))) = Some v)"
  using expired_after_renewal[of r calls v t0 c t] round_trip_within_ttl[of c r t0 calls t v]
    reachable_ttl[of cls prior] reachable_updateAgeOnGet[of cls prior]
    market_expiry[of ex calls t0 t v prior]
  by blast


theorem cache_expiry_and_round_trip_witness:
  "lastRenewal btcOnBinance busyCalls (cacheSet btcOnBinance quoteA 0 builtCaches) 0 = 6000 \<and>
   6000 + ttl (storeOf (classOf btcOnBinance) (builtCaches :: Ticker MarketDataCache)) < 16001 \<and>
   fst (cacheGet btcOnBinance 16001 (runCalls busyCalls (cacheSet btcOnBinance quoteA 0 builtCaches)))
     = None \<and>
   ttl (storeOf TickerClass (runCalls quietCalls builtCaches)) = 10000 \<and>
   updateAgeOnGet (storeOf TickerClass (runCalls quietCalls builtCaches)) \<and>
   ttl (storeOf MarketClass (runCalls quietCalls builtCaches)) = 3600000 \<and>
   \<not> updateAgeOnGet (storeOf MarketClass (runCalls quietCalls builtCaches)) \<and>
   list_all (leavesKey (MarketsOf ''binance'')) marketReads \<and>
   (0::nat) + 3600000 < 3600001 \<and>
   fst (getMarkets ''binance'' 3600001
          (runCalls marketReads (setMarkets ''binance'' quoteA 0 (runCalls quietCalls builtCaches))))
     = None \<and>
   list_all (insideWindow builtCaches btcOnBinance 0) busyCalls \<and>
   length busyCalls < maxEntries (storeOf (classOf btcOnBinance) (builtCaches :: Ticker MarketDataCache)) \<and>
   9000 \<le> 0 + ttl (storeOf (classOf btcOnBinance) (builtCaches :: Ticker MarketDataCache)) \<and>
   fst (cacheGet btcOnBinance 9000 (runCalls busyCalls (cacheSet btcOnBinance quoteA 0 builtCaches)))
     = Some quoteA"
proof -
  have cls: "classOf btcOnBinance = TickerClass"
    by (simp add: btcOnBinance_def)
  have g1: "lastRenewal btcOnBinance busyCalls (cacheSet btcOnBinance quoteA 0 builtCaches) 0 = 6000"
    by (simp add: busyCalls_def btcOnBinance_def btcOnKraken_def getTicker_def setTicker_def
        builtCaches_def newLRUCache_def lruSet_def lruGet_def autopurge_def fireTimer_def
        isStale_def List.map_filter_def getKey_def tally_def TICKER_TTL_MS_def
        TICKER_MAX_ENTRIES_def Let_def)
  have g2: "6000 + ttl (storeOf (classOf btcOnBinance) (builtCaches :: Ticker MarketDataCache)) < 16001"
    by (simp add: cls builtCaches_ttl)
  have m1: "list_all (leavesKey (MarketsOf ''binance'')) marketReads"
    by (simp add: leavesKey_def marketReads_def)
  have m2: "(0::nat) + 3600000 < 3600001"
    by simp
  have h3: "list_all (insideWindow builtCaches btcOnBinance 0) busyCalls"
    by (simp add: insideWindow_def busyCalls_def cls builtCaches_ttl)
       (simp add: btcOnBinance_def btcOnKraken_def getKey_def)
  have h4: "length busyCalls <
            maxEntries (storeOf (classOf btcOnBinance) (builtCaches :: Ticker MarketDataCache))"
    by (simp add: cls builtCaches_maxEntries busyCalls_def)
  have h5: "9000 \<le> 0 + ttl (storeOf (classOf btcOnBinance) (builtCaches :: Ticker MarketDataCache))"
    by (simp add: cls builtCaches_ttl)
  from cache_expiry_and_round_trip[where c = "builtCaches :: Ticker MarketDataCache"
      and r = btcOnBinance and calls = busyCalls and ?t0.0 = 0 and t = 16001 and v = quoteA
      and cls = TickerClass and prior = quietCalls]
    g1 g2
  have a: "fst (cacheGet btcOnBinance 16001
             (runCalls busyCalls (cacheSet btcOnBinance quoteA 0 builtCaches))) = None"
    "ttl (storeOf TickerClass (runCalls quietCalls builtCaches)) = 10000"
    "updateAgeOnGet (storeOf TickerClass (runCalls quietCalls builtCaches))"
    by simp_all
  from cache_expiry_and_round_trip[where c = "builtCaches :: Ticker MarketDataCache"
      and calls = marketReads and ?t0.0 = 0 and t = 3600001 and v = quoteA
      and cls = MarketClass and prior = quietCalls and ex = "''binance''"]
    m1 m2
  have b: "ttl (storeOf MarketClass (runCalls quietCalls builtCaches)) = 3600000"
    "\<not> updateAgeOnGet (storeOf MarketClass (runCalls quietCalls builtCaches))"
    "fst (getMarkets ''binance'' 3600001
          (runCalls marketReads (setMarkets ''binance'' quoteA 0 (runCalls quietCalls builtCaches))))
     = None"
    by simp_all
  from cache_expiry_and_round_trip[where c = "builtCaches :: Ticker MarketDataCache"
      and r = btcOnBinance and calls = busyCalls and ?t0.0 = 0 and t = 9000 and v = quoteA]
    h3 h4 h5
  have c: "fst (cacheGet btcOnBinance 9000
             (runCalls busyCalls (cacheSet btcOnBinance quoteA 0 builtCaches))) = Some quoteA"
    by blast
  from g1 g2 a b m1 m2 h3 h4 h5 c show ?thesis by blast
qed

text \<open>
  The claim as stated fails in the ticker class: a ticker stored at time 0 and read at 6 s
  is returned again at 12 s, more than the TTL of 10 s after it was inserted, because the
  read at 6 s reset its age.
\<close>

theorem cache_expiry_counterexample:
  "ttl (storeOf (classOf btcOnBinance) storedCache) = 10000 \<and>
   fst (cacheGet btcOnBinance 12000 (runCalls [(6000, Get btcOnBinance)] storedCache)) = Some quoteA"
  by (simp add: storedCache_def btcOnBinance_def runCalls_def getTicker_def setTicker_def
      builtCaches_def newLRUCache_def lruSet_def lruGet_def autopurge_def fireTimer_def
      isStale_def List.map_filter_def getKey_def tally_def TICKER_TTL_MS_def
      TICKER_MAX_ENTRIES_def Let_def)


end
